theory Spec2Isabelle
  imports Main "HOL-Library.List_Lexorder"
begin

section \<open>Strings, paths and the file system\<close>

text \<open>
  A Python \<^verbatim>\<open>str\<close> is a sequence of Unicode code points, so a string is a list of
  natural numbers: \<^verbatim>\<open>ord\<close> is the identity, \<^verbatim>\<open>chr\<close> checks the range, and the order of
  \<^verbatim>\<open>sorted\<close> on strings is the lexicographic order of the lists. \<open>lit\<close> writes an
  ASCII literal.

  \<open>lower\<close> folds the letters A-Z. \<^verbatim>\<open>str.lower\<close> differs from it on code points outside
  ASCII only, and of those only U+0130 and U+212A lower to anything with an ASCII
  character in it (\<^verbatim>\<open>i\<close> followed by U+0307, and \<^verbatim>\<open>k\<close>), neither of which can take
  part in the end of a supported extension. So \<open>is_supported\<close> is the filter of the
  program on every string, and on a supported name, whose extension is ASCII, \<open>lower\<close>
  of the extension is \<^verbatim>\<open>str.lower\<close> of it. The case folding of \<^verbatim>\<open>re.IGNORECASE\<close> is
  written out in full below. \<open>isdigit\<close> knows the digits 0-9 only: \<^verbatim>\<open>str.isdigit\<close> takes
  other Unicode digits too, and folder names with such digits are outside the theorems
  on subfolder mode, each of which assumes \<open>isdigit\<close> of the name.
\<close>

type_synonym pystr = "nat list"

definition lit :: "string \<Rightarrow> pystr" where
  "lit s = map of_char s"

datatype py_error = ZeroDivisionError | IndexError | ValueError

datatype outcome = Returned | Raised py_error

text \<open>\<^verbatim>\<open>RENAMED_FOLDER_NAME\<close> and \<^verbatim>\<open>SUPPORTED_IMAGE_EXTENSIONS\<close> (lines 39-40).\<close>

definition RENAMED_FOLDER_NAME :: pystr where
  "RENAMED_FOLDER_NAME = lit ''renamed''"

definition SUPPORTED_IMAGE_EXTENSIONS :: "pystr list" where
  "SUPPORTED_IMAGE_EXTENSIONS =
     [lit ''.jpg'', lit ''.jpeg'', lit ''.png'', lit ''.gif'', lit ''.bmp'', lit ''.tiff'']"

text \<open>\<^verbatim>\<open>str.lower\<close>: A-Z (65-90) go to a-z (97-122).\<close>

definition lower_cp :: "nat \<Rightarrow> nat" where
  "lower_cp c = (if 65 \<le> c \<and> c \<le> 90 then c + 32 else c)"

definition lower :: "pystr \<Rightarrow> pystr" where
  "lower s = map lower_cp s"

text \<open>\<^verbatim>\<open>s.endswith(suffix)\<close>, and \<^verbatim>\<open>s.endswith(tuple)\<close>: true when any member is a suffix.\<close>

definition endswith :: "pystr \<Rightarrow> pystr \<Rightarrow> bool" where
  "endswith s suf = (length suf \<le> length s \<and> drop (length s - length suf) s = suf)"

definition endswith_any :: "pystr \<Rightarrow> pystr list \<Rightarrow> bool" where
  "endswith_any s sufs = list_ex (endswith s) sufs"

text \<open>The filter of lines 70 and 107: \<^verbatim>\<open>f.lower().endswith(SUPPORTED_IMAGE_EXTENSIONS)\<close>.\<close>

definition is_supported :: "pystr \<Rightarrow> bool" where
  "is_supported f = endswith_any (lower f) SUPPORTED_IMAGE_EXTENSIONS"

text \<open>
  \<^verbatim>\<open>str.rfind\<close> of one character: the highest index where it occurs, or -1.
\<close>

fun rfind :: "nat \<Rightarrow> pystr \<Rightarrow> int" where
  "rfind c [] = - 1"
| "rfind c (x # xs) =
     (let r = rfind c xs in if 0 \<le> r then r + 1 else if x = c then 0 else - 1)"

text \<open>
  \<^verbatim>\<open>os.path.splitext(p)[1]\<close> (posixpath, separator \<^verbatim>\<open>/\<close> = 47, extension separator
  \<^verbatim>\<open>.\<close> = 46): the text from the last dot on, when that dot comes after the last
  separator and some character between the separator and the dot is not a dot;
  otherwise the empty string.
\<close>

definition splitext_ext :: "pystr \<Rightarrow> pystr" where
  "splitext_ext p =
     (let sepIndex = rfind 47 p; dotIndex = rfind 46 p in
      if dotIndex > sepIndex
      then (if list_ex (\<lambda>c. c \<noteq> 46) (drop (nat (sepIndex + 1)) (take (nat dotIndex) p))
            then drop (nat dotIndex) p else [])
      else [])"

text \<open>
  Python list indexing \<^verbatim>\<open>xs[i]\<close>: a negative index counts from the end, an index out of
  range raises \<^verbatim>\<open>IndexError\<close>.
\<close>

definition py_index :: "'a list \<Rightarrow> int \<Rightarrow> py_error + 'a" where
  "py_index xs i =
     (let n = int (length xs); k = (if i < 0 then n + i else i) in
      if 0 \<le> k \<and> k < n then Inr (xs ! nat k) else Inl IndexError)"

text \<open>\<^verbatim>\<open>chr(n)\<close>: the one-character string, \<^verbatim>\<open>ValueError\<close> outside \<^verbatim>\<open>range(0x110000)\<close>.\<close>

definition py_chr :: "int \<Rightarrow> py_error + pystr" where
  "py_chr n = (if 0 \<le> n \<and> n < 1114112 then Inr [nat n] else Inl ValueError)"

text \<open>A list comprehension over calls that may raise: the first error ends it.\<close>

fun sequence :: "('e + 'a) list \<Rightarrow> 'e + 'a list" where
  "sequence [] = Inr []"
| "sequence (Inl e # rs) = Inl e"
| "sequence (Inr x # rs) = (case sequence rs of Inl e \<Rightarrow> Inl e | Inr xs \<Rightarrow> Inr (x # xs))"

text \<open>Decimal digits of a natural number, and the format \<^verbatim>\<open>{n:02d}\<close> of an integer.\<close>

fun digits :: "nat \<Rightarrow> pystr" where
  "digits n = (if n < 10 then [48 + n] else digits (n div 10) @ [48 + n mod 10])"

declare digits.simps [simp del]

definition format_02d :: "int \<Rightarrow> pystr" where
  "format_02d n =
     (if n < 0 then 45 # digits (nat (- n))
      else (let d = digits (nat n) in if length d < 2 then 48 # d else d))"

text \<open>
  A directory is named by where it is: \<open>Root cs\<close> is the directory reached from
  \<^verbatim>\<open>base_work_dir\<close> through the components \<open>cs\<close> (\<open>Root []\<close> is \<^verbatim>\<open>base_work_dir\<close>
  itself), \<open>Single_folder\<close> is \<^verbatim>\<open>single_folder_path\<close>. A path
  \<^verbatim>\<open>os.path.join(dir, name)\<close> is the pair of the directory and the name.
\<close>

datatype location = Root "pystr list" | Single_folder

type_synonym path = "location \<times> pystr"

definition renamed_dir_path :: location where
  "renamed_dir_path = Root [RENAMED_FOLDER_NAME]"

text \<open>
  What a run does, in order: the lines it prints (one constructor for each
  \<^verbatim>\<open>print\<close> of the source, with the values it interpolates) and the calls of
  \<^verbatim>\<open>shutil.copy2(src, dst)\<close>. Whether a call raises is the file system's: the
  parameter \<open>copy_raises\<close> of the two modes says so, and the source catches it.
  Creating the output folder, listing a folder and printing a line are taken to succeed.
\<close>

datatype msg =
    MsgRenamedDir
  | MsgSkipName "pystr list" pystr
  | WarnNoImagesIn "pystr list"
  | MsgProcessing1 "pystr list"
  | NoteExtra "pystr list" nat
  | MsgCopied1 pystr pystr
  | ErrCopy path path
  | MsgDone1
  | ErrNotDir
  | WarnNoImages
  | ErrNoGuides
  | ErrInconsistent
  | MsgFollowedBy pystr nat
  | WarnNothing
  | ErrNotMultiple nat int
  | HintAngleNum
  | MsgProcessing2
  | MsgDetected nat nat int
  | MsgBatch nat pystr pystr
  | MsgGuideCopied pystr
  | ErrGuideCopy pystr
  | MsgRenamed pystr pystr
  | WarnRemaining nat
  | MsgRemaining "pystr list"
  | MsgDone2 nat

datatype event = Print msg | Copy2 path path

fun copies :: "event list \<Rightarrow> (path \<times> path) list" where
  "copies [] = []"
| "copies (Print m # es) = copies es"
| "copies (Copy2 src dst # es) = (src, dst) # copies es"

section \<open>Subfolder mode\<close>

text \<open>
  A directory tree: the subdirectories with their names, and the names of the other
  entries, both in the order the operating system lists them. \<open>walk\<close> is
  \<^verbatim>\<open>os.walk\<close> top-down: a directory first, then each of its subdirectories in turn.
  The tree is the one the walk finds below \<^verbatim>\<open>base_work_dir\<close>, the output folder already
  created in it; two directories are the same path exactly when their components are.
\<close>

datatype dirtree = Dir "(pystr \<times> dirtree) list" "pystr list"

fun walk :: "pystr list \<Rightarrow> dirtree \<Rightarrow> (pystr list \<times> pystr list \<times> pystr list) list" where
  "walk root (Dir subs files) =
     (root, map fst subs, files) # concat (map (\<lambda>(n, t). walk (root @ [n]) t) subs)"

definition angle_suffixes :: "pystr list" where
  "angle_suffixes = [lit ''A'', lit ''B'', lit ''C'', lit ''D'']"

text \<open>\<^verbatim>\<open>str.isdigit\<close>: not empty and every character a digit.\<close>

definition isdigit :: "pystr \<Rightarrow> bool" where
  "isdigit s = (s \<noteq> [] \<and> list_all (\<lambda>c. 48 \<le> c \<and> c \<le> 57) s)"

text \<open>The inner loop of lines 76-91, \<open>i\<close> the index of \<^verbatim>\<open>enumerate\<close>.\<close>

fun copy_sample_files ::
  "(path \<Rightarrow> path \<Rightarrow> bool) \<Rightarrow> pystr \<Rightarrow> pystr \<Rightarrow> pystr list \<Rightarrow> pystr \<Rightarrow> nat \<Rightarrow> pystr list
     \<Rightarrow> event list" where
  "copy_sample_files copy_raises region_code date_code root sample_number i [] = []"
| "copy_sample_files copy_raises region_code date_code root sample_number i
     (original_filename # rest) =
     (if i \<ge> length angle_suffixes then [Print (NoteExtra root (length angle_suffixes))]
      else
        (let angle_suffix = angle_suffixes ! i;
             file_extension = lower (splitext_ext original_filename);
             new_filename = region_code @ lit ''-'' @ date_code @ lit ''-'' @ sample_number
                            @ lit ''-'' @ angle_suffix @ file_extension;
             original_filepath = (Root root, original_filename);
             new_filepath = (renamed_dir_path, new_filename)
         in Copy2 original_filepath new_filepath
            # Print (if copy_raises original_filepath new_filepath
                     then ErrCopy original_filepath new_filepath
                     else MsgCopied1 original_filename new_filename)
            # copy_sample_files copy_raises region_code date_code root sample_number
                (Suc i) rest))"

text \<open>The body of the loop over \<^verbatim>\<open>os.walk\<close> (lines 60-91) for one directory.\<close>

definition visit ::
  "(path \<Rightarrow> path \<Rightarrow> bool) \<Rightarrow> pystr \<Rightarrow> pystr \<Rightarrow> pystr list \<times> pystr list \<times> pystr list
     \<Rightarrow> event list" where
  "visit copy_raises region_code date_code entry =
     (case entry of (root, dirs, files) \<Rightarrow>
        if Root root = renamed_dir_path then []
        else if root = [] then []
        else
          (let sample_number = last root in
           if \<not> isdigit sample_number \<or> length sample_number \<noteq> 4
           then [Print (MsgSkipName root sample_number)]
           else
             (let image_files = sort (filter is_supported files) in
              if image_files = [] then [Print (WarnNoImagesIn root)]
              else Print (MsgProcessing1 root)
                   # copy_sample_files copy_raises region_code date_code root sample_number
                       0 image_files)))"

definition rename_and_copy_subfolder_mode ::
  "(path \<Rightarrow> path \<Rightarrow> bool) \<Rightarrow> dirtree \<Rightarrow> pystr \<Rightarrow> pystr \<Rightarrow> event list" where
  "rename_and_copy_subfolder_mode copy_raises tree region_code date_code =
     Print MsgRenamedDir
     # concat (map (visit copy_raises region_code date_code) (walk [] tree))
     @ [Print MsgDone1]"

section \<open>Single-folder mode\<close>

subsection \<open>Guide photos\<close>

text \<open>
  The pattern of lines 119-120,
  \<^verbatim>\<open>-([a-zA-Z0-9]{2})\.(jpg|jpeg|png|gif|bmp|tiff)$\<close> with \<^verbatim>\<open>re.IGNORECASE\<close>.
  \<open>pattern_exts\<close> are the alternatives, each extension with its leading dots stripped.
  \<open>match_end e s\<close> matches the pattern with alternative \<open>e\<close> so that the match ends
  where \<open>s\<close> ends, and gives group 1. \<^verbatim>\<open>$\<close> holds at the end of the string and before
  a newline (10) that ends it, so \<open>guide_photo_search\<close> tries both. No two
  alternatives match the same string (the dot sits at a different place), so the
  order of trying them does not show.

  Under \<^verbatim>\<open>re.IGNORECASE\<close> a string pattern folds case by Unicode: besides the 52 ASCII
  letters, the class \<^verbatim>\<open>[a-zA-Z]\<close> takes U+0130 and U+0131 (dotted capital and dotless
  small i, 304 and 305), U+017F (long s, 383) and U+212A (the Kelvin sign, 8490), and
  a literal \<^verbatim>\<open>i\<close>, \<^verbatim>\<open>s\<close> or \<^verbatim>\<open>k\<close> takes the ones that fold to it. \<open>is_alnum\<close> is the
  class with the digits, \<open>ignorecase_match p c\<close> says that the ASCII pattern character
  \<open>p\<close> matches \<open>c\<close>.
\<close>

definition pattern_exts :: "pystr list" where
  "pattern_exts = map (dropWhile (\<lambda>c. c = 46)) SUPPORTED_IMAGE_EXTENSIONS"

definition is_alnum :: "nat \<Rightarrow> bool" where
  "is_alnum c =
     ((48 \<le> c \<and> c \<le> 57) \<or> (65 \<le> c \<and> c \<le> 90) \<or> (97 \<le> c \<and> c \<le> 122)
      \<or> c = 304 \<or> c = 305 \<or> c = 383 \<or> c = 8490)"

definition ignorecase_match :: "nat \<Rightarrow> nat \<Rightarrow> bool" where
  "ignorecase_match p c =
     (lower_cp c = lower_cp p
      \<or> (lower_cp p = 105 \<and> (c = 304 \<or> c = 305))
      \<or> (lower_cp p = 115 \<and> c = 383)
      \<or> (lower_cp p = 107 \<and> c = 8490))"

definition match_end :: "pystr \<Rightarrow> pystr \<Rightarrow> pystr option" where
  "match_end e s =
     (let n = length s; k = length e + 4 in
      if n < k then None
      else (case drop (n - k) s of
              d # c1 # c2 # p # t \<Rightarrow>
                if d = 45 \<and> is_alnum c1 \<and> is_alnum c2 \<and> p = 46
                   \<and> list_all2 ignorecase_match e t
                then Some [c1, c2] else None
            | _ \<Rightarrow> None))"

fun first_match :: "pystr list \<Rightarrow> pystr \<Rightarrow> pystr option" where
  "first_match [] s = None"
| "first_match (e # es) s =
     (case match_end e s of Some b \<Rightarrow> Some b | None \<Rightarrow> first_match es s)"

definition guide_photo_search :: "pystr \<Rightarrow> pystr option" where
  "guide_photo_search s =
     (case first_match pattern_exts s of
        Some b \<Rightarrow> Some b
      | None \<Rightarrow> if s \<noteq> [] \<and> last s = 10 then first_match pattern_exts (butlast s) else None)"

text \<open>The entries of \<^verbatim>\<open>guide_photos_info\<close> and of \<^verbatim>\<open>batches\<close> (dictionaries in the source).\<close>

record guide_info =
  filename :: pystr
  index :: nat
  gi_batch_id :: pystr

record batch =
  guide_file :: pystr
  batch_id :: pystr
  files_to_rename :: "pystr list"

text \<open>Lines 123-131: the loop over \<^verbatim>\<open>enumerate(all_files)\<close>, \<open>i\<close> the running index.\<close>

fun find_guides :: "nat \<Rightarrow> pystr list \<Rightarrow> guide_info list" where
  "find_guides i [] = []"
| "find_guides i (f # fs) =
     (case guide_photo_search f of
        Some b \<Rightarrow> \<lparr>filename = f, index = i, gi_batch_id = b\<rparr> # find_guides (Suc i) fs
      | None \<Rightarrow> find_guides (Suc i) fs)"

subsection \<open>Batches\<close>

text \<open>The slice \<^verbatim>\<open>xs[a:b]\<close> for indices that are not negative.\<close>

definition slice :: "'a list \<Rightarrow> nat \<Rightarrow> nat \<Rightarrow> 'a list" where
  "slice xs a b = drop a (take b xs)"

text \<open>
  Lines 138-149: the loop over \<^verbatim>\<open>enumerate(guide_photos_info)\<close>. The list still to visit
  starts with the current guide, so the next guide, when there is one, is its second
  element.
\<close>

fun build_batches :: "pystr list \<Rightarrow> guide_info list \<Rightarrow> batch list" where
  "build_batches all_files [] = []"
| "build_batches all_files (guide # rest) =
     (let start_index = index guide;
          end_index = (case rest of [] \<Rightarrow> length all_files | nxt # _ \<Rightarrow> index nxt);
          batch_files = slice all_files start_index end_index
      in \<lparr>guide_file = filename guide, batch_id = gi_batch_id guide,
           files_to_rename = drop 1 batch_files\<rparr>
         # build_batches all_files rest)"

text \<open>Line 154: \<^verbatim>\<open>all(len(b['files_to_rename']) == num_files_in_first_batch for b in batches)\<close>.\<close>

definition is_consistent :: "batch list \<Rightarrow> bool" where
  "is_consistent batches =
     (case batches of
        [] \<Rightarrow> True
      | b0 # _ \<Rightarrow> list_all (\<lambda>b. length (files_to_rename b) = length (files_to_rename b0)) batches)"

subsection \<open>Copying\<close>

text \<open>Line 174: \<^verbatim>\<open>[chr(ord('A') + i) for i in range(angle_num)]\<close>.\<close>

definition group_labels :: "int \<Rightarrow> py_error + pystr list" where
  "group_labels angle_num = sequence (map (\<lambda>i. py_chr (65 + int i)) [0..<nat angle_num])"

text \<open>
  Lines 189-206: the loop over \<^verbatim>\<open>enumerate(batch['files_to_rename'])\<close>, \<open>j\<close> the running
  index and \<open>total_renamed_count\<close> the counter. \<^verbatim>\<open>//\<close> and \<^verbatim>\<open>%\<close> are the floor
  division and its remainder, as \<open>div\<close> and \<open>mod\<close> on \<open>int\<close> are, and raise on a zero
  divisor; the index into \<^verbatim>\<open>group_labels\<close> raises out of range. Both are outside the
  \<^verbatim>\<open>try\<close>, so they end the run.
\<close>

fun rename_files ::
  "(path \<Rightarrow> path \<Rightarrow> bool) \<Rightarrow> pystr \<Rightarrow> pystr \<Rightarrow> pystr \<Rightarrow> int \<Rightarrow> pystr list \<Rightarrow> nat \<Rightarrow> nat
     \<Rightarrow> pystr list \<Rightarrow> event list \<times> nat \<times> outcome" where
  "rename_files copy_raises region_code date_code bid angle_num labels j
     total_renamed_count [] =
     ([], total_renamed_count, Returned)"
| "rename_files copy_raises region_code date_code bid angle_num labels j
     total_renamed_count (filename_to_rename # rest) =
     (if angle_num = 0 then ([], total_renamed_count, Raised ZeroDivisionError)
      else
        (let group_id = (int j div angle_num) + 1 in
         case py_index labels (int j mod angle_num) of
           Inl e \<Rightarrow> ([], total_renamed_count, Raised e)
         | Inr angle_suffix \<Rightarrow>
             (let file_extension = lower (splitext_ext filename_to_rename);
                  new_filename = region_code @ lit ''-'' @ date_code @ lit ''-'' @ bid
                                 @ format_02d group_id @ lit ''-'' @ angle_suffix
                                 @ file_extension;
                  src_path = (Single_folder, filename_to_rename);
                  dst_path = (renamed_dir_path, new_filename);
                  failed = copy_raises src_path dst_path
              in case rename_files copy_raises region_code date_code bid angle_num labels
                        (Suc j)
                        (if failed then total_renamed_count else Suc total_renamed_count)
                        rest of
                   (es, total_renamed_count', out) \<Rightarrow>
                     (Copy2 src_path dst_path
                      # Print (if failed then ErrCopy src_path dst_path
                               else MsgRenamed filename_to_rename new_filename)
                      # es, total_renamed_count', out))))"

text \<open>Lines 177-206: the loop over \<^verbatim>\<open>enumerate(batches)\<close>, \<open>i\<close> the running index.\<close>

fun copy_batches ::
  "(path \<Rightarrow> path \<Rightarrow> bool) \<Rightarrow> pystr \<Rightarrow> pystr \<Rightarrow> int \<Rightarrow> pystr list \<Rightarrow> nat \<Rightarrow> nat \<Rightarrow> batch list
     \<Rightarrow> event list \<times> nat \<times> outcome" where
  "copy_batches copy_raises region_code date_code angle_num labels i
     total_renamed_count [] =
     ([], total_renamed_count, Returned)"
| "copy_batches copy_raises region_code date_code angle_num labels i
     total_renamed_count (b # bs) =
     (let src = (Single_folder, guide_file b);
          dst = (renamed_dir_path, guide_file b);
          guide_events =
            [Print (MsgBatch (i + 1) (guide_file b) (batch_id b)),
             Copy2 src dst,
             Print (if copy_raises src dst then ErrGuideCopy (guide_file b)
                    else MsgGuideCopied (guide_file b))]
      in case rename_files copy_raises region_code date_code (batch_id b) angle_num labels
                0 total_renamed_count (files_to_rename b) of
           (es, count1, Raised e) \<Rightarrow> (guide_events @ es, count1, Raised e)
         | (es, count1, Returned) \<Rightarrow>
             (case copy_batches copy_raises region_code date_code angle_num labels
                     (Suc i) count1 bs of
                (es2, count2, out) \<Rightarrow> (guide_events @ es @ es2, count2, out)))"

subsection \<open>The check after the last batch\<close>

text \<open>
  Lines 209-217. \<^verbatim>\<open>guide_photos_info[-1]\<close> and \<^verbatim>\<open>batches[-1]\<close> are the last entries;
  both lists have an entry here (line 133 returned otherwise). The arithmetic is on
  Python's integers.
\<close>

definition last_processed_index :: "guide_info list \<Rightarrow> batch list \<Rightarrow> int" where
  "last_processed_index guide_photos_info batches =
     int (index (last guide_photos_info)) + int (length (files_to_rename (last batches)))"

definition post_pass :: "pystr list \<Rightarrow> guide_info list \<Rightarrow> batch list \<Rightarrow> event list" where
  "post_pass all_files guide_photos_info batches =
     (if guide_photos_info \<noteq> [] then
        (if last_processed_index guide_photos_info batches < int (length all_files) - 1 then
           (let remaining_files =
                  drop (nat (last_processed_index guide_photos_info batches + 1)) all_files
            in if remaining_files \<noteq> []
               then [Print (WarnRemaining (length remaining_files)),
                     Print (MsgRemaining remaining_files)]
               else [])
         else [])
      else [])"

subsection \<open>The whole function\<close>

text \<open>
  Lines 152-219, from the consistency check on. \<^verbatim>\<open>batches[0]\<close> raises on an empty list.
\<close>

definition process_batches ::
  "(path \<Rightarrow> path \<Rightarrow> bool) \<Rightarrow> pystr list \<Rightarrow> guide_info list \<Rightarrow> batch list \<Rightarrow> pystr \<Rightarrow> pystr
     \<Rightarrow> int \<Rightarrow> event list \<times> outcome" where
  "process_batches copy_raises all_files guide_photos_info batches region_code date_code
     angle_num =
     (if length batches > 1 \<and> \<not> is_consistent batches
      then (Print ErrInconsistent
            # map (\<lambda>b. Print (MsgFollowedBy (guide_file b) (length (files_to_rename b))))
                batches,
            Returned)
      else
        (case batches of
           [] \<Rightarrow> ([], Raised IndexError)
         | b0 # _ \<Rightarrow>
            (let num_files_per_batch = length (files_to_rename b0) in
             if num_files_per_batch \<noteq> 0 \<and> angle_num = 0 then ([], Raised ZeroDivisionError)
             else if num_files_per_batch \<noteq> 0 \<and> int num_files_per_batch mod angle_num \<noteq> 0
             then ([Print (ErrNotMultiple num_files_per_batch angle_num), Print HintAngleNum],
                   Returned)
             else
               (let head =
                      (if num_files_per_batch = 0 then [Print WarnNothing] else [])
                      @ [Print MsgProcessing2,
                         Print (MsgDetected (length batches) num_files_per_batch angle_num)]
                in case group_labels angle_num of
                     Inl e \<Rightarrow> (head, Raised e)
                   | Inr labels \<Rightarrow>
                      (case copy_batches copy_raises region_code date_code angle_num labels
                              0 0 batches of
                         (es, total_renamed_count, Raised e) \<Rightarrow> (head @ es, Raised e)
                       | (es, total_renamed_count, Returned) \<Rightarrow>
                           (head @ es @ post_pass all_files guide_photos_info batches
                            @ [Print (MsgDone2 total_renamed_count)],
                            Returned))))))"

text \<open>
  Lines 102-149, then the rest. \<open>isdir\<close> is \<^verbatim>\<open>os.path.isdir(single_folder_path)\<close> and
  \<open>listing\<close> what \<^verbatim>\<open>os.listdir(single_folder_path)\<close> returns; Python's \<^verbatim>\<open>sorted\<close> on
  strings is \<open>sort\<close> in the lexicographic order of the code points.
\<close>

definition rename_and_copy_single_folder_mode ::
  "(path \<Rightarrow> path \<Rightarrow> bool) \<Rightarrow> bool \<Rightarrow> pystr list \<Rightarrow> pystr \<Rightarrow> pystr \<Rightarrow> int
     \<Rightarrow> event list \<times> outcome" where
  "rename_and_copy_single_folder_mode copy_raises isdir listing region_code date_code
     angle_num =
     (if \<not> isdir then ([Print ErrNotDir], Returned)
      else
        (let all_files = sort (filter is_supported listing) in
         if all_files = [] then ([Print MsgRenamedDir, Print WarnNoImages], Returned)
         else
           (let guide_photos_info = find_guides 0 all_files in
            if guide_photos_info = [] then ([Print MsgRenamedDir, Print ErrNoGuides], Returned)
            else
              (let batches = build_batches all_files guide_photos_info in
               case process_batches copy_raises all_files guide_photos_info batches
                      region_code date_code angle_num of
                 (es, out) \<Rightarrow> (Print MsgRenamedDir # es, out)))))"

section \<open>What the specification expects\<close>

text \<open>
  The names the specification gives to the copies, written from its words. In subfolder
  mode \<^verbatim>\<open>{REGION}-{DATE}-{SAMPLEID}-{ANGLE}{ext}\<close>, the angle being the \<open>i\<close>-th letter from
  \<^verbatim>\<open>A\<close> (65) and the extension the lower-cased one of the original name.
\<close>

definition sample_name :: "pystr \<Rightarrow> pystr \<Rightarrow> pystr \<Rightarrow> nat \<Rightarrow> pystr \<Rightarrow> pystr" where
  "sample_name region_code date_code sample_number i f =
     region_code @ lit ''-'' @ date_code @ lit ''-'' @ sample_number @ lit ''-'' @ [65 + i]
     @ lower (splitext_ext f)"

text \<open>
  In single-folder mode \<^verbatim>\<open>{REGION}-{DATE}-{BATCHID}{GROUPID:02d}-{ANGLE}{ext}\<close> for the file
  at position \<open>j\<close> of its batch, with group \<open>j div angle_num + 1\<close> and the angle the
  \<open>(j mod angle_num)\<close>-th letter from \<^verbatim>\<open>A\<close>.
\<close>

definition renamed_name :: "pystr \<Rightarrow> pystr \<Rightarrow> pystr \<Rightarrow> int \<Rightarrow> nat \<Rightarrow> pystr \<Rightarrow> pystr" where
  "renamed_name region_code date_code bid angle_num j f =
     region_code @ lit ''-'' @ date_code @ lit ''-'' @ bid
     @ format_02d (int j div angle_num + 1) @ lit ''-'' @ [65 + nat (int j mod angle_num)]
     @ lower (splitext_ext f)"

text \<open>The copies of one batch: the guide under its own name, then the files in order.\<close>

definition batch_copies :: "pystr \<Rightarrow> pystr \<Rightarrow> int \<Rightarrow> batch \<Rightarrow> (path \<times> path) list" where
  "batch_copies region_code date_code angle_num b =
     ((Single_folder, guide_file b), (renamed_dir_path, guide_file b))
     # map (\<lambda>(j, f). ((Single_folder, f),
                      (renamed_dir_path,
                       renamed_name region_code date_code (batch_id b) angle_num j f)))
         (enumerate 0 (files_to_rename b))"

text \<open>A string with no upper-case letter A-Z in it.\<close>

definition is_lower_cased :: "pystr \<Rightarrow> bool" where
  "is_lower_cased s = list_all (\<lambda>c. \<not> (65 \<le> c \<and> c \<le> 90)) s"

text \<open>The names of source files that a printed line or a copy refers to.\<close>

fun msg_files :: "msg \<Rightarrow> pystr list" where
  "msg_files (MsgCopied1 f new) = [f]"
| "msg_files (ErrCopy src dst) = [snd src]"
| "msg_files (MsgFollowedBy g n) = [g]"
| "msg_files (MsgBatch i g bid) = [g]"
| "msg_files (MsgGuideCopied g) = [g]"
| "msg_files (ErrGuideCopy g) = [g]"
| "msg_files (MsgRenamed f new) = [f]"
| "msg_files (MsgRemaining fs) = fs"
| "msg_files m = []"

fun event_files :: "event \<Rightarrow> pystr list" where
  "event_files (Print m) = msg_files m"
| "event_files (Copy2 src dst) = [snd src]"

text \<open>
  The batches in the words of the specification: every guide photo opens a batch, which
  holds the files after it up to the next guide photo or the end of the list; the files
  before the first guide photo are passed over.
\<close>

fun split_batches :: "pystr list \<Rightarrow> batch list" where
  "split_batches [] = []"
| "split_batches (f # fs) =
     (case guide_photo_search f of
        None \<Rightarrow> split_batches fs
      | Some b \<Rightarrow>
          \<lparr>guide_file = f, batch_id = b,
           files_to_rename = takeWhile (\<lambda>x. guide_photo_search x = None) fs\<rparr>
          # split_batches fs)"

text \<open>The copies of a run whose source lies in a given directory, in order.\<close>

definition copies_from :: "location \<Rightarrow> event list \<Rightarrow> (path \<times> path) list" where
  "copies_from dir es = filter (\<lambda>c. fst (fst c) = dir) (copies es)"

text \<open>An environment in which no copy fails, for the examples.\<close>

definition no_failure :: "path \<Rightarrow> path \<Rightarrow> bool" where
  "no_failure src dst = False"

section \<open>Evaluation and helper lemmas\<close>

lemmas string_defs = lit_def lower_def lower_cp_def endswith_def endswith_any_def
  is_supported_def SUPPORTED_IMAGE_EXTENSIONS_def RENAMED_FOLDER_NAME_def splitext_ext_def
  pattern_exts_def is_alnum_def ignorecase_match_def match_end_def guide_photo_search_def

lemma guide_photo_search_examples:
  "guide_photo_search (lit ''x-'' @ [8490, 8490] @ lit ''.jpg'') = Some [8490, 8490]"
  "guide_photo_search (lit ''x-0'' @ [383] @ lit ''.TIFF'') = Some (lit ''0'' @ [383])"
  "guide_photo_search (lit ''x-01.g'' @ [305] @ lit ''f'') = Some (lit ''01'')"
  "guide_photo_search (lit ''x-01.g'' @ [304] @ lit ''f'') = Some (lit ''01'')"
  "guide_photo_search (lit ''x-01.jpg'' @ [10]) = Some (lit ''01'')"
  "guide_photo_search (lit ''x-01.jpg'' @ [10, 10]) = None"
  "guide_photo_search (lit ''a-01.jpg-02.png'') = Some (lit ''02'')"
  "guide_photo_search (lit ''x-0'' @ [233] @ lit ''.jpg'') = None"
  "guide_photo_search (lit ''x-01.jp'' @ [8490]) = None"
  by (simp_all add: string_defs)

lemma is_supported_examples:
  "is_supported (lit ''x-'' @ [8490, 8490] @ lit ''.JPG'')"
  "\<not> is_supported (lit ''x-01.g'' @ [305] @ lit ''f'')"
  "\<not> is_supported (lit ''x-01.g'' @ [304] @ lit ''f'')"
  "\<not> is_supported (lit ''x-01.jpg'' @ [10])"
  by (simp_all add: string_defs)

lemma sequence_all_Inr: "sequence (map (\<lambda>x. Inr (g x)) xs) = Inr (map g xs)"
  by (induction xs) simp_all

lemma sequence_first_Inl:
  "i < length rs \<Longrightarrow> rs ! i = Inl e \<Longrightarrow> (\<And>j. j < i \<Longrightarrow> \<exists>x. rs ! j = Inr x)
     \<Longrightarrow> sequence rs = Inl e"
proof (induction rs arbitrary: i)
  case Nil
  then show ?case by simp
next
  case (Cons r rs)
  show ?case
  proof (cases i)
    case 0
    with Cons.prems show ?thesis by simp
  next
    case (Suc k)
    from Cons.prems(3) [of 0] Suc obtain x where r: "r = Inr x" by auto
    have "sequence rs = Inl e"
    proof (rule Cons.IH [of k])
      show "k < length rs" using Cons.prems(1) Suc by simp
      show "rs ! k = Inl e" using Cons.prems(2) Suc by simp
      show "\<exists>x. rs ! j = Inr x" if "j < k" for j
        using Cons.prems(3) [of "Suc j"] that Suc by simp
    qed
    then show ?thesis by (simp add: r)
  qed
qed

lemma group_labels_eq:
  "group_labels angle_num =
     (if angle_num \<le> 1114047 then Inr (map (\<lambda>i. [65 + i]) [0..<nat angle_num])
      else Inl ValueError)"
proof (cases "angle_num \<le> 1114047")
  case True
  have eq: "map (\<lambda>i. py_chr (65 + int i)) [0..<nat angle_num]
          = map (\<lambda>i. Inr [65 + i]) [0..<nat angle_num]"
    using True by (auto simp: py_chr_def nat_add_distrib)
  show ?thesis
    by (simp only: group_labels_def eq sequence_all_Inr True if_True)
next
  case False
  let ?rs = "map (\<lambda>i. py_chr (65 + int i)) [0..<nat angle_num]"
  have "sequence ?rs = Inl ValueError"
  proof (rule sequence_first_Inl [of 1114047])
    show "1114047 < length ?rs" using False by simp
    show "?rs ! 1114047 = Inl ValueError" using False by (simp add: py_chr_def)
    show "\<exists>x. ?rs ! j = Inr x" if "j < 1114047" for j
      using that False by (simp add: py_chr_def)
  qed
  then show ?thesis using False by (simp add: group_labels_def)
qed

section \<open>The angle labels (C7)\<close>

text \<open>
  C7 says that generating the labels raises once the alphabet is exhausted, that is for
  \<^verbatim>\<open>angle_num\<close> above 26. It does not: \<^verbatim>\<open>chr(ord('A') + i)\<close> is defined for every code
  point, so with 27 angles the labels are A to Z followed by \<^verbatim>\<open>[\<close> (91).
\<close>

theorem C7_labels_beyond_Z:
  "group_labels 27 =
     Inr [lit ''A'', lit ''B'', lit ''C'', lit ''D'', lit ''E'', lit ''F'', lit ''G'',
          lit ''H'', lit ''I'', lit ''J'', lit ''K'', lit ''L'', lit ''M'', lit ''N'',
          lit ''O'', lit ''P'', lit ''Q'', lit ''R'', lit ''S'', lit ''T'', lit ''U'',
          lit ''V'', lit ''W'', lit ''X'', lit ''Y'', lit ''Z'', lit ''['']"
  by (simp add: group_labels_def py_chr_def upt_rec lit_def)

text \<open>
  C7, amended: label generation raises only where \<^verbatim>\<open>chr\<close> does, with \<^verbatim>\<open>ValueError\<close> when
  \<^verbatim>\<open>angle_num\<close> exceeds 1114047 (the label would pass code point 0x10FFFF). Up to there,
  and so for every \<^verbatim>\<open>angle_num\<close> from 27 on, it returns \<^verbatim>\<open>angle_num\<close> labels, the
  \<open>i\<close>-th being the character with code point \<open>65 + i\<close>: the labels run on past Z.
\<close>

theorem group_labels_raise_only_past_unicode:
  "group_labels angle_num =
     (if angle_num \<le> 1114047 then Inr (map (\<lambda>i. [65 + i]) [0..<nat angle_num])
      else Inl ValueError)"
  by (rule group_labels_eq)

theorem group_labels_raise_only_past_unicode_witness:
  "group_labels 30 = Inr (map (\<lambda>i. [65 + i]) [0..<30])
   \<and> group_labels 1114048 = Inl ValueError"
  using group_labels_raise_only_past_unicode [of 30]
    group_labels_raise_only_past_unicode [of 1114048]
  by simp

section \<open>Batches between guide photos (C1)\<close>

text \<open>
  C1 says that with guide photos at indices 2 and 7 of a 10-file list the first batch,
  spanning [2,7), has 6 files, the guide and 5 to rename. The span [2,7) holds 5 indices:
  on ten such files the guides are found at 2 and 7, and the batches have 4 and 2 files
  to rename (5 and 3 files with their guides).
\<close>

theorem C1_first_batch_has_four_to_rename:
  "map index
     (find_guides 0
        (sort (filter is_supported
           [lit ''a1.jpg'', lit ''a2.jpg'', lit ''b-01.jpg'', lit ''b1.jpg'', lit ''b2.jpg'',
            lit ''b3.jpg'', lit ''b4.jpg'', lit ''c-02.jpg'', lit ''c1.jpg'',
            lit ''c2.jpg'']))) = [2, 7]
   \<and> map (length \<circ> files_to_rename)
       (build_batches
          (sort (filter is_supported
             [lit ''a1.jpg'', lit ''a2.jpg'', lit ''b-01.jpg'', lit ''b1.jpg'', lit ''b2.jpg'',
              lit ''b3.jpg'', lit ''b4.jpg'', lit ''c-02.jpg'', lit ''c1.jpg'',
              lit ''c2.jpg'']))
          (find_guides 0
             (sort (filter is_supported
                [lit ''a1.jpg'', lit ''a2.jpg'', lit ''b-01.jpg'', lit ''b1.jpg'',
                 lit ''b2.jpg'', lit ''b3.jpg'', lit ''b4.jpg'', lit ''c-02.jpg'',
                 lit ''c1.jpg'', lit ''c2.jpg''])))) = [4, 2]"
  by (simp add: string_defs slice_def)

text \<open>
  C1, amended: for a list of 10 files with guide photos exactly at indices 2 and 7, the
  batch construction yields two batches: batch 1 spans [2,7) and has 5 files (the guide
  and 4 files to rename), batch 2 spans [7,10) and has 3 files (the guide and 2 files to
  rename).
\<close>

theorem batches_of_guides_at_2_and_7:
  assumes "guide_photo_search f2 = Some b1" and "guide_photo_search f7 = Some b2"
    and "\<forall>f \<in> set [f0, f1, f3, f4, f5, f6, f8, f9]. guide_photo_search f = None"
  shows "map index (find_guides 0 [f0, f1, f2, f3, f4, f5, f6, f7, f8, f9]) = [2, 7]
    \<and> build_batches [f0, f1, f2, f3, f4, f5, f6, f7, f8, f9]
        (find_guides 0 [f0, f1, f2, f3, f4, f5, f6, f7, f8, f9])
      = [\<lparr>guide_file = f2, batch_id = b1, files_to_rename = [f3, f4, f5, f6]\<rparr>,
         \<lparr>guide_file = f7, batch_id = b2, files_to_rename = [f8, f9]\<rparr>]
    \<and> slice [f0, f1, f2, f3, f4, f5, f6, f7, f8, f9] 2 7 = [f2, f3, f4, f5, f6]
    \<and> slice [f0, f1, f2, f3, f4, f5, f6, f7, f8, f9] 7 10 = [f7, f8, f9]"
  using assms by (simp add: slice_def eval_nat_numeral)

theorem batches_of_guides_at_2_and_7_witness:
  "build_batches
     [lit ''a1.jpg'', lit ''a2.jpg'', lit ''b-01.jpg'', lit ''b1.jpg'', lit ''b2.jpg'',
      lit ''b3.jpg'', lit ''b4.jpg'', lit ''c-02.jpg'', lit ''c1.jpg'', lit ''c2.jpg'']
     (find_guides 0
        [lit ''a1.jpg'', lit ''a2.jpg'', lit ''b-01.jpg'', lit ''b1.jpg'', lit ''b2.jpg'',
         lit ''b3.jpg'', lit ''b4.jpg'', lit ''c-02.jpg'', lit ''c1.jpg'', lit ''c2.jpg''])
   = [\<lparr>guide_file = lit ''b-01.jpg'', batch_id = lit ''01'',
        files_to_rename = [lit ''b1.jpg'', lit ''b2.jpg'', lit ''b3.jpg'', lit ''b4.jpg'']\<rparr>,
      \<lparr>guide_file = lit ''c-02.jpg'', batch_id = lit ''02'',
        files_to_rename = [lit ''c1.jpg'', lit ''c2.jpg'']\<rparr>]"
proof -
  have g1: "guide_photo_search (lit ''b-01.jpg'') = Some (lit ''01'')"
    by (simp add: string_defs)
  have g2: "guide_photo_search (lit ''c-02.jpg'') = Some (lit ''02'')"
    by (simp add: string_defs)
  have others: "\<forall>f \<in> set [lit ''a1.jpg'', lit ''a2.jpg'', lit ''b1.jpg'', lit ''b2.jpg'',
      lit ''b3.jpg'', lit ''b4.jpg'', lit ''c1.jpg'', lit ''c2.jpg'']. guide_photo_search f = None"
    by (simp add: string_defs)
  from batches_of_guides_at_2_and_7 [OF g1 g2 others] show ?thesis by simp
qed

section \<open>The batches are the spans between guide photos\<close>

lemma find_guides_next:
  "(case find_guides k fs of [] \<Rightarrow> k + length fs | nxt # _ \<Rightarrow> index nxt)
     = k + length (takeWhile (\<lambda>x. guide_photo_search x = None) fs)"
proof (induction fs arbitrary: k)
  case Nil
  then show ?case by simp
next
  case (Cons f fs)
  show ?case
    using Cons.IH [of "Suc k"] by (auto split: option.splits list.splits)
qed

lemma build_batches_split:
  "build_batches (pre @ fs) (find_guides (length pre) fs) = split_batches fs"
proof (induction fs arbitrary: pre)
  case Nil
  then show ?case by simp
next
  case (Cons f fs)
  have IH: "build_batches (pre @ f # fs) (find_guides (Suc (length pre)) fs) = split_batches fs"
    using Cons.IH [of "pre @ [f]"] by simp
  show ?case
  proof (cases "guide_photo_search f")
    case None
    then show ?thesis using IH by simp
  next
    case (Some b)
    let ?P = "\<lambda>x. guide_photo_search x = None"
    have e: "(case find_guides (Suc (length pre)) fs of
                [] \<Rightarrow> length (pre @ f # fs) | nxt # _ \<Rightarrow> index nxt)
             = Suc (length pre) + length (takeWhile ?P fs)"
      using find_guides_next [of "Suc (length pre)" fs] by (simp split: list.splits)
    have "drop 1 (slice (pre @ f # fs) (length pre)
             (Suc (length pre) + length (takeWhile ?P fs))) = takeWhile ?P fs"
      by (simp add: slice_def takeWhile_eq_take [symmetric])
    then show ?thesis using Some IH e by (simp add: Let_def)
  qed
qed

lemma batches_eq_split: "build_batches fs (find_guides 0 fs) = split_batches fs"
  using build_batches_split [of "[]" fs] by simp

section \<open>The index reached by the last batch\<close>

lemma find_guides_bounds:
  "g \<in> set (find_guides k fs) \<Longrightarrow> k \<le> index g \<and> index g < k + length fs"
proof (induction fs arbitrary: k)
  case Nil
  then show ?case by simp
next
  case (Cons f fs)
  then show ?case
    using Cons.IH [of "Suc k"] by (fastforce split: option.splits)
qed

lemma build_batches_Nil_iff: "build_batches af gs = [] \<longleftrightarrow> gs = []"
  by (cases gs) (simp_all add: Let_def)

lemma length_build_batches: "length (build_batches af gs) = length gs"
  by (induction gs) (simp_all add: Let_def)

lemma last_batch_files:
  "gs \<noteq> [] \<Longrightarrow>
     files_to_rename (last (build_batches af gs))
       = drop 1 (slice af (index (last gs)) (length af))"
proof (induction gs)
  case Nil
  then show ?case by simp
next
  case (Cons g gs)
  show ?case
  proof (cases gs)
    case Nil
    then show ?thesis by (simp add: Let_def)
  next
    case (Cons g' gs')
    then have "gs \<noteq> []" by simp
    with Cons.IH have "files_to_rename (last (build_batches af gs))
       = drop 1 (slice af (index (last gs)) (length af))" .
    then show ?thesis
      using \<open>gs \<noteq> []\<close> by (simp add: Let_def build_batches_Nil_iff)
  qed
qed

lemma last_processed_index_eq:
  assumes "find_guides 0 af \<noteq> []"
  shows "last_processed_index (find_guides 0 af) (build_batches af (find_guides 0 af))
           = int (length af) - 1"
proof -
  let ?gs = "find_guides 0 af"
  have "last ?gs \<in> set ?gs" using assms by simp
  then have lt: "index (last ?gs) < length af"
    using find_guides_bounds [of "last ?gs" 0 af] by simp
  have "length (files_to_rename (last (build_batches af ?gs)))
          = length af - index (last ?gs) - 1"
    using assms by (simp add: last_batch_files slice_def)
  then show ?thesis using lt by (simp add: last_processed_index_def)
qed

lemma post_pass_Nil:
  "post_pass af (find_guides 0 af) (build_batches af (find_guides 0 af)) = []"
  by (simp add: post_pass_def last_processed_index_eq)

section \<open>What the copy loops print and copy\<close>

lemma rename_files_event_files:
  "set (concat (map event_files
      (fst (rename_files cr region date bid a labels j t fs)))) \<subseteq> set fs"
proof (induction fs arbitrary: j t)
  case Nil
  then show ?case by simp
next
  case (Cons f fs)
  show ?case
    using Cons.IH [of "Suc j" t] Cons.IH [of "Suc j" "Suc t"]
    by (auto simp: Let_def split: sum.splits prod.splits if_splits) blast+
qed

lemma rename_files_no_remaining:
  "Print (WarnRemaining n) \<notin> set (fst (rename_files cr region date bid a labels j t fs))
   \<and> Print (MsgRemaining r) \<notin> set (fst (rename_files cr region date bid a labels j t fs))"
proof (induction fs arbitrary: j t)
  case Nil
  then show ?case by simp
next
  case (Cons f fs)
  show ?case
    using Cons.IH [of "Suc j" t] Cons.IH [of "Suc j" "Suc t"]
    by (auto simp: Let_def split: sum.splits prod.splits if_splits)
qed

lemma rename_files_copies_shape:
  "((s, f), (d, new)) \<in> set (copies (fst (rename_files cr region date bid a labels j t fs)))
     \<Longrightarrow> s = Single_folder \<and> d = renamed_dir_path \<and> f \<in> set fs
         \<and> endswith new (lower (splitext_ext f))"
proof (induction fs arbitrary: j t)
  case Nil
  then show ?case by simp
next
  case (Cons f' fs)
  show ?case
    using Cons.prems Cons.IH [of "Suc j" t] Cons.IH [of "Suc j" "Suc t"]
    by (auto simp: Let_def endswith_def split: sum.splits prod.splits if_splits)
qed

lemma copies_append: "copies (xs @ ys) = copies xs @ copies ys"
  by (induction xs rule: copies.induct) simp_all

lemma copy_batches_event_files:
  "set (concat (map event_files (fst (copy_batches cr region date a labels i t bs))))
     \<subseteq> (\<Union>b \<in> set bs. set (guide_file b # files_to_rename b))"
proof (induction bs arbitrary: i t)
  case Nil
  then show ?case by simp
next
  case (Cons b bs)
  obtain es t1 out where r: "rename_files cr region date (batch_id b) a labels 0 t
      (files_to_rename b) = (es, t1, out)"
    by (cases "rename_files cr region date (batch_id b) a labels 0 t (files_to_rename b)")
  have es: "set (concat (map event_files es)) \<subseteq> set (files_to_rename b)"
    using rename_files_event_files [of cr region date "batch_id b" a labels 0 t
        "files_to_rename b"] r by simp
  show ?case
  proof (cases out)
    case Returned
    obtain es2 t2 out2 where c: "copy_batches cr region date a labels (Suc i) t1 bs
        = (es2, t2, out2)"
      by (cases "copy_batches cr region date a labels (Suc i) t1 bs")
    have "set (concat (map event_files es2))
        \<subseteq> (\<Union>b \<in> set bs. set (guide_file b # files_to_rename b))"
      using Cons.IH [of "Suc i" t1] c by simp
    then show ?thesis using r Returned c es by (auto simp: Let_def)
  next
    case (Raised e)
    then show ?thesis using r es by (auto simp: Let_def)
  qed
qed

lemma py_index_labels:
  assumes "1 \<le> a"
  shows "py_index (map (\<lambda>i. [65 + i]) [0..<nat a]) (int j mod a)
           = Inr [65 + nat (int j mod a)]"
proof -
  have nn: "\<not> int j mod a < 0" and lt: "int j mod a < a"
    using assms by (simp_all add: not_less)
  have "nat (int j mod a) < nat a" using nn lt by simp
  then show ?thesis
    using nn lt by (simp add: py_index_def)
qed

lemma rename_files_copies:
  assumes "1 \<le> a" and "labels = map (\<lambda>i. [65 + i]) [0..<nat a]"
  shows "snd (snd (rename_files cr r d bid a labels j t fs)) = Returned
     \<and> copies (fst (rename_files cr r d bid a labels j t fs))
         = map (\<lambda>(j, f). ((Single_folder, f),
                          (renamed_dir_path, renamed_name r d bid a j f)))
             (enumerate j fs)"
proof (induction fs arbitrary: j t)
  case Nil
  then show ?case by simp
next
  case (Cons f fs)
  have a0: "a \<noteq> 0" using assms(1) by simp
  have lab: "py_index labels (int j mod a) = Inr [65 + nat (int j mod a)]"
    using py_index_labels [OF assms(1)] assms(2) by simp
  show ?case
    using Cons.IH [of "Suc j" t] Cons.IH [of "Suc j" "Suc t"]
    by (auto simp: a0 lab Let_def renamed_name_def split: prod.splits)
qed

lemma copy_batches_copies:
  assumes "1 \<le> a" and "labels = map (\<lambda>i. [65 + i]) [0..<nat a]"
  shows "snd (snd (copy_batches cr r d a labels i t bs)) = Returned
     \<and> copies (fst (copy_batches cr r d a labels i t bs))
         = concat (map (batch_copies r d a) bs)"
proof (induction bs arbitrary: i t)
  case Nil
  then show ?case by simp
next
  case (Cons b bs)
  obtain es t1 out where rf: "rename_files cr r d (batch_id b) a labels 0 t
      (files_to_rename b) = (es, t1, out)"
    by (cases "rename_files cr r d (batch_id b) a labels 0 t (files_to_rename b)")
  from rename_files_copies [OF assms, of cr r d "batch_id b" 0 t "files_to_rename b"] rf
  have out: "out = Returned"
    and es: "copies es = map (\<lambda>(j, f). ((Single_folder, f),
                (renamed_dir_path, renamed_name r d (batch_id b) a j f)))
             (enumerate 0 (files_to_rename b))"
    by simp_all
  have bc: "batch_copies r d a b
      = ((Single_folder, guide_file b), (renamed_dir_path, guide_file b)) # copies es"
    by (simp add: batch_copies_def es)
  obtain es2 t2 out2 where cb: "copy_batches cr r d a labels (Suc i) t1 bs = (es2, t2, out2)"
    by (cases "copy_batches cr r d a labels (Suc i) t1 bs")
  from Cons.IH [of "Suc i" t1] cb
  have out2: "out2 = Returned"
    and es2: "copies es2 = concat (map (batch_copies r d a) bs)"
    by simp_all
  show ?case
    using rf out cb out2 es2
    by (simp add: Let_def copies_append bc)
qed

lemma copies_iff: "(src, dst) \<in> set (copies es) \<longleftrightarrow> Copy2 src dst \<in> set es"
  by (induction es rule: copies.induct) auto

lemma copies_prints: "copies (map (\<lambda>x. Print (m x)) xs) = []"
  by (induction xs) simp_all

lemma not_consistent_iff:
  "\<not> is_consistent bs \<longleftrightarrow>
     (\<exists>b1 \<in> set bs. \<exists>b2 \<in> set bs.
        length (files_to_rename b1) \<noteq> length (files_to_rename b2))"
proof (cases bs)
  case Nil
  then show ?thesis by (simp add: is_consistent_def)
next
  case (Cons b0 rest)
  show ?thesis
  proof
    assume "\<not> is_consistent bs"
    then obtain b where "b \<in> set bs"
      and "length (files_to_rename b) \<noteq> length (files_to_rename b0)"
      using Cons by (auto simp: is_consistent_def list_all_iff)
    moreover have "b0 \<in> set bs" using Cons by simp
    ultimately show "\<exists>b1 \<in> set bs. \<exists>b2 \<in> set bs.
        length (files_to_rename b1) \<noteq> length (files_to_rename b2)"
      by blast
  next
    assume "\<exists>b1 \<in> set bs. \<exists>b2 \<in> set bs.
        length (files_to_rename b1) \<noteq> length (files_to_rename b2)"
    then obtain b1 b2 where "b1 \<in> set bs" "b2 \<in> set bs"
      and ne: "length (files_to_rename b1) \<noteq> length (files_to_rename b2)"
      by blast
    then have "length (files_to_rename b1) \<noteq> length (files_to_rename b0)
        \<or> length (files_to_rename b2) \<noteq> length (files_to_rename b0)"
      by linarith
    then show "\<not> is_consistent bs"
      using Cons \<open>b1 \<in> set bs\<close> \<open>b2 \<in> set bs\<close>
      by (auto simp: is_consistent_def list_all_iff)
  qed
qed

lemma copy_batches_no_remaining:
  "Print (WarnRemaining n) \<notin> set (fst (copy_batches cr r d a labels i t bs))
   \<and> Print (MsgRemaining fs) \<notin> set (fst (copy_batches cr r d a labels i t bs))"
proof (induction bs arbitrary: i t)
  case Nil
  then show ?case by simp
next
  case (Cons b bs)
  obtain es t1 out where rf: "rename_files cr r d (batch_id b) a labels 0 t
      (files_to_rename b) = (es, t1, out)"
    by (cases "rename_files cr r d (batch_id b) a labels 0 t (files_to_rename b)")
  have es: "Print (WarnRemaining n) \<notin> set es \<and> Print (MsgRemaining fs) \<notin> set es"
    using rename_files_no_remaining [of n cr r d "batch_id b" a labels 0 t
        "files_to_rename b" fs] rf by simp
  show ?case
  proof (cases out)
    case Returned
    obtain es2 t2 out2 where cb: "copy_batches cr r d a labels (Suc i) t1 bs
        = (es2, t2, out2)"
      by (cases "copy_batches cr r d a labels (Suc i) t1 bs")
    have "Print (WarnRemaining n) \<notin> set es2 \<and> Print (MsgRemaining fs) \<notin> set es2"
      using Cons.IH [of "Suc i" t1] cb by simp
    then show ?thesis using rf Returned cb es by (auto simp: Let_def)
  next
    case (Raised e)
    then show ?thesis using rf es by (auto simp: Let_def)
  qed
qed

lemma copy_batches_copies_shape:
  "((s, f), (dd, new)) \<in> set (copies (fst (copy_batches cr r d a labels i t bs)))
     \<Longrightarrow> s = Single_folder \<and> dd = renamed_dir_path
         \<and> (\<exists>b \<in> set bs. (f = guide_file b \<and> new = f)
               \<or> (f \<in> set (files_to_rename b) \<and> endswith new (lower (splitext_ext f))))"
proof (induction bs arbitrary: i t)
  case Nil
  then show ?case by simp
next
  case (Cons b bs)
  obtain es t1 out where rf: "rename_files cr r d (batch_id b) a labels 0 t
      (files_to_rename b) = (es, t1, out)"
    by (cases "rename_files cr r d (batch_id b) a labels 0 t (files_to_rename b)")
  have es: "((s, f), (dd, new)) \<in> set (copies es) \<Longrightarrow>
      s = Single_folder \<and> dd = renamed_dir_path \<and> f \<in> set (files_to_rename b)
         \<and> endswith new (lower (splitext_ext f))"
    using rename_files_copies_shape [of s f dd new cr r d "batch_id b" a labels 0 t
        "files_to_rename b"] rf by simp
  show ?case
  proof (cases out)
    case Returned
    obtain es2 t2 out2 where cb: "copy_batches cr r d a labels (Suc i) t1 bs
        = (es2, t2, out2)"
      by (cases "copy_batches cr r d a labels (Suc i) t1 bs")
    have es2: "((s, f), (dd, new)) \<in> set (copies es2) \<Longrightarrow>
      s = Single_folder \<and> dd = renamed_dir_path
         \<and> (\<exists>b \<in> set bs. (f = guide_file b \<and> new = f)
               \<or> (f \<in> set (files_to_rename b) \<and> endswith new (lower (splitext_ext f))))"
      using Cons.IH [of "Suc i" t1] cb by simp
    show ?thesis
      using Cons.prems rf Returned cb es es2 by (auto simp: Let_def copies_append)
  next
    case (Raised e)
    then show ?thesis using Cons.prems rf es by (auto simp: Let_def copies_append)
  qed
qed

lemma batches_nonempty_files:
  "build_batches (sort (filter is_supported listing))
      (find_guides 0 (sort (filter is_supported listing))) \<noteq> []
   \<Longrightarrow> sort (filter is_supported listing) \<noteq> []
       \<and> find_guides 0 (sort (filter is_supported listing)) \<noteq> []"
  by (cases "sort (filter is_supported listing)") (auto simp: build_batches_Nil_iff)

lemma consistent_hd:
  "bs \<noteq> [] \<Longrightarrow> is_consistent bs \<Longrightarrow> \<not> (1 < length bs \<and> \<not> is_consistent bs)"
  by simp

lemmas run_defs = rename_and_copy_single_folder_mode_def process_batches_def slice_def
  is_consistent_def group_labels_def py_chr_def py_index_def format_02d_def digits.simps
  post_pass_def last_processed_index_def Let_def no_failure_def

section \<open>Names of the copies in single-folder mode (C3)\<close>

text \<open>
  C3 says that in every run that passes the consistency and divisibility checks each
  non-guide file is copied to its name. The checks let a negative \<^verbatim>\<open>angle_num\<close> through:
  one file after the guide and \<^verbatim>\<open>angle_num = -1\<close> pass (1 % -1 is 0), the labels are
  empty, and the index into them raises \<^verbatim>\<open>IndexError\<close> after the guide is copied and
  before the file is.
\<close>

theorem C3_negative_angle_num_passes_checks_then_raises:
  "int (length [lit ''b.jpg'']) mod (- 1) = 0
   \<and> rename_and_copy_single_folder_mode no_failure True [lit ''a-01.jpg'', lit ''b.jpg'']
       (lit ''HR'') (lit ''250701'') (- 1)
     = ([Print MsgRenamedDir, Print MsgProcessing2, Print (MsgDetected 1 1 (- 1)),
         Print (MsgBatch 1 (lit ''a-01.jpg'') (lit ''01'')),
         Copy2 (Single_folder, lit ''a-01.jpg'') (renamed_dir_path, lit ''a-01.jpg''),
         Print (MsgGuideCopied (lit ''a-01.jpg''))],
        Raised IndexError)"
  by (simp add: run_defs string_defs)

text \<open>
  C3, amended: in single-folder mode with \<^verbatim>\<open>angle_num\<close> from 1 to 55231, for every run
  that passes the consistency and divisibility checks the function returns, and the copies
  it makes are, batch after batch, the guide photo under its unchanged name and then the
  non-guide file at each position \<open>j\<close> of the batch under
  \<^verbatim>\<open>{REGION}-{DATE}-{BATCHID}{GROUPID:02d}-{ANGLE}{ext}\<close>, with group \<open>j div angle_num + 1\<close>,
  angle the \<open>(j mod angle_num)\<close>-th letter from A, and the extension lower-cased.

  The bound keeps every label below U+D800: label 55231 is the first surrogate, a
  character that can neither be printed nor stand in a file name, so from 55232 angles
  on a batch long enough to use it ends in an encoding error, not in a copy.
\<close>

theorem renamed_copies_for_valid_angle_num:
  assumes "isdir"
    and "1 \<le> angle_num" and "angle_num \<le> 55231"
    and "batches = build_batches (sort (filter is_supported listing))
                     (find_guides 0 (sort (filter is_supported listing)))"
    and "batches \<noteq> []"
    and "is_consistent batches"
    and "int (length (files_to_rename (hd batches))) mod angle_num = 0"
  shows "snd (rename_and_copy_single_folder_mode copy_raises isdir listing region_code
                date_code angle_num) = Returned
     \<and> copies (fst (rename_and_copy_single_folder_mode copy_raises isdir listing
                region_code date_code angle_num))
         = concat (map (batch_copies region_code date_code angle_num) batches)"
proof -
  let ?af = "sort (filter is_supported listing)"
  let ?gs = "find_guides 0 ?af"
  let ?labels = "map (\<lambda>i. [65 + i]) [0..<nat angle_num]"
  have ne: "?af \<noteq> []" "?gs \<noteq> []"
    using batches_nonempty_files [of listing] assms(4,5) by simp_all
  obtain b0 rest where bs: "batches = b0 # rest"
    using assms(5) by (cases batches) auto
  have labels: "group_labels angle_num = Inr ?labels"
    using assms(3) by (simp add: group_labels_eq)
  obtain es t out where cb: "copy_batches copy_raises region_code date_code angle_num
      ?labels 0 0 batches = (es, t, out)"
    by (cases "copy_batches copy_raises region_code date_code angle_num ?labels 0 0 batches")
  from copy_batches_copies [OF assms(2) refl, of copy_raises region_code date_code 0 0 batches]
    cb
  have out: "out = Returned"
    and es: "copies es = concat (map (batch_copies region_code date_code angle_num) batches)"
    by simp_all
  have pp: "post_pass ?af ?gs batches = []"
    using assms(4) by (simp add: post_pass_Nil)
  have a0: "angle_num \<noteq> 0" using assms(2) by simp
  have md: "int (length (files_to_rename b0)) mod angle_num = 0"
    using assms(7) bs by simp
  have pb: "process_batches copy_raises ?af ?gs batches region_code date_code angle_num
      = ((if length (files_to_rename b0) = 0 then [Print WarnNothing] else [])
         @ [Print MsgProcessing2,
            Print (MsgDetected (length batches) (length (files_to_rename b0)) angle_num)]
         @ es @ [Print (MsgDone2 t)], Returned)"
    unfolding process_batches_def
    using assms(6) cb out pp a0 md labels by (simp add: bs Let_def)
  show ?thesis
    using assms(1) ne pb es
    by (simp add: rename_and_copy_single_folder_mode_def Let_def assms(4) [symmetric]
          copies_append)
qed

theorem renamed_copies_for_valid_angle_num_witness:
  "snd (rename_and_copy_single_folder_mode no_failure True
          [lit ''b.jpg'', lit ''a-01.JPG'', lit ''c.PNG'', lit ''0.jpg'']
          (lit ''HR'') (lit ''250701'') 2) = Returned
   \<and> copies (fst (rename_and_copy_single_folder_mode no_failure True
          [lit ''b.jpg'', lit ''a-01.JPG'', lit ''c.PNG'', lit ''0.jpg'']
          (lit ''HR'') (lit ''250701'') 2))
     = [((Single_folder, lit ''a-01.JPG''), (renamed_dir_path, lit ''a-01.JPG'')),
        ((Single_folder, lit ''b.jpg''), (renamed_dir_path, lit ''HR-250701-0101-A.jpg'')),
        ((Single_folder, lit ''c.PNG''), (renamed_dir_path, lit ''HR-250701-0101-B.png''))]"
proof -
  let ?listing = "[lit ''b.jpg'', lit ''a-01.JPG'', lit ''c.PNG'', lit ''0.jpg'']"
  let ?batches = "[\<lparr>guide_file = lit ''a-01.JPG'', batch_id = lit ''01'',
                    files_to_rename = [lit ''b.jpg'', lit ''c.PNG'']\<rparr>]"
  have b: "?batches = build_batches (sort (filter is_supported ?listing))
                     (find_guides 0 (sort (filter is_supported ?listing)))"
    by (simp add: string_defs slice_def)
  have ne: "?batches \<noteq> []" by simp
  have c: "is_consistent ?batches" by (simp add: is_consistent_def)
  have m: "int (length (files_to_rename (hd ?batches))) mod 2 = 0" by simp
  from renamed_copies_for_valid_angle_num [of True 2 ?batches ?listing no_failure
      "lit ''HR''" "lit ''250701''", OF TrueI _ _ b ne c m]
  show ?thesis
    by (simp add: batch_copies_def renamed_name_def format_02d_def digits.simps
          string_defs enumerate_eq_zip upt_rec)
qed

section \<open>Batches of unequal size (C4)\<close>

text \<open>
  C4: in single-folder mode with more than one batch, if the batches do not all have the
  same number of non-guide files, the run prints the diagnostic, one line for each batch
  with its guide file name and its file count, and returns; no file is copied.
\<close>

theorem unequal_batches_abort_before_any_copy:
  assumes "isdir"
    and "batches = build_batches (sort (filter is_supported listing))
                     (find_guides 0 (sort (filter is_supported listing)))"
    and "length batches > 1"
    and "\<exists>b1 \<in> set batches. \<exists>b2 \<in> set batches.
           length (files_to_rename b1) \<noteq> length (files_to_rename b2)"
  shows "rename_and_copy_single_folder_mode copy_raises isdir listing region_code date_code
           angle_num
         = (Print MsgRenamedDir # Print ErrInconsistent
            # map (\<lambda>b. Print (MsgFollowedBy (guide_file b) (length (files_to_rename b))))
                batches,
            Returned)
     \<and> copies (fst (rename_and_copy_single_folder_mode copy_raises isdir listing region_code
           date_code angle_num)) = []"
proof -
  have ne: "batches \<noteq> []" using assms(3) by auto
  have nes: "sort (filter is_supported listing) \<noteq> []"
      "find_guides 0 (sort (filter is_supported listing)) \<noteq> []"
    using batches_nonempty_files [of listing] assms(2) ne by simp_all
  have nc: "\<not> is_consistent batches"
    using assms(4) by (simp add: not_consistent_iff)
  have pb: "process_batches copy_raises (sort (filter is_supported listing))
              (find_guides 0 (sort (filter is_supported listing))) batches region_code
              date_code angle_num
            = (Print ErrInconsistent
               # map (\<lambda>b. Print (MsgFollowedBy (guide_file b) (length (files_to_rename b))))
                   batches,
               Returned)"
    using assms(3) nc by (simp add: process_batches_def)
  have run: "rename_and_copy_single_folder_mode copy_raises isdir listing region_code date_code
           angle_num
         = (Print MsgRenamedDir # Print ErrInconsistent
            # map (\<lambda>b. Print (MsgFollowedBy (guide_file b) (length (files_to_rename b))))
                batches,
            Returned)"
    using assms(1) nes pb
    by (simp add: rename_and_copy_single_folder_mode_def Let_def assms(2) [symmetric])
  show ?thesis
    unfolding run by (simp add: copies_prints)
qed

theorem unequal_batches_abort_before_any_copy_witness:
  "rename_and_copy_single_folder_mode no_failure True
     [lit ''a-01.jpg'', lit ''b.jpg'', lit ''c-02.jpg''] (lit ''HR'') (lit ''250701'') 1
   = ([Print MsgRenamedDir, Print ErrInconsistent,
       Print (MsgFollowedBy (lit ''a-01.jpg'') 1), Print (MsgFollowedBy (lit ''c-02.jpg'') 0)],
      Returned)
   \<and> copies (fst (rename_and_copy_single_folder_mode no_failure True
        [lit ''a-01.jpg'', lit ''b.jpg'', lit ''c-02.jpg''] (lit ''HR'') (lit ''250701'') 1))
     = []"
proof -
  let ?listing = "[lit ''a-01.jpg'', lit ''b.jpg'', lit ''c-02.jpg'']"
  let ?batches = "[\<lparr>guide_file = lit ''a-01.jpg'', batch_id = lit ''01'',
                    files_to_rename = [lit ''b.jpg'']\<rparr>,
                   \<lparr>guide_file = lit ''c-02.jpg'', batch_id = lit ''02'',
                    files_to_rename = []\<rparr>]"
  have b: "?batches = build_batches (sort (filter is_supported ?listing))
                     (find_guides 0 (sort (filter is_supported ?listing)))"
    by (simp add: string_defs slice_def)
  have l: "length ?batches > 1" by simp
  have u: "\<exists>b1 \<in> set ?batches. \<exists>b2 \<in> set ?batches.
           length (files_to_rename b1) \<noteq> length (files_to_rename b2)"
    by simp
  from unequal_batches_abort_before_any_copy [of True ?batches ?listing no_failure
      "lit ''HR''" "lit ''250701''" 1, OF TrueI b l u]
  show ?thesis by simp
qed

section \<open>An angle count of zero (C9)\<close>

text \<open>
  C9: in single-folder mode with \<^verbatim>\<open>angle_num = 0\<close> and a positive common number of
  non-guide files in each batch, the divisibility check raises \<^verbatim>\<open>ZeroDivisionError\<close>,
  uncaught in the function: nothing is printed after the line about the output folder,
  no diagnostic and no copy, and the function does not return.
\<close>

theorem zero_angle_num_raises_ZeroDivisionError:
  assumes "isdir"
    and "batches = build_batches (sort (filter is_supported listing))
                     (find_guides 0 (sort (filter is_supported listing)))"
    and "batches \<noteq> []"
    and "is_consistent batches"
    and "0 < length (files_to_rename (hd batches))"
  shows "rename_and_copy_single_folder_mode copy_raises isdir listing region_code date_code 0
         = ([Print MsgRenamedDir], Raised ZeroDivisionError)"
proof -
  have nes: "sort (filter is_supported listing) \<noteq> []"
      "find_guides 0 (sort (filter is_supported listing)) \<noteq> []"
    using batches_nonempty_files [of listing] assms(2,3) by simp_all
  obtain b0 rest where bs: "batches = b0 # rest"
    using assms(3) by (cases batches) auto
  have pb: "process_batches copy_raises (sort (filter is_supported listing))
              (find_guides 0 (sort (filter is_supported listing))) batches region_code
              date_code 0
            = ([], Raised ZeroDivisionError)"
    using assms(4,5) by (simp add: process_batches_def bs)
  show ?thesis
    using assms(1) nes pb
    by (simp add: rename_and_copy_single_folder_mode_def Let_def assms(2) [symmetric])
qed

theorem zero_angle_num_raises_ZeroDivisionError_witness:
  "rename_and_copy_single_folder_mode no_failure True
     [lit ''a-01.jpg'', lit ''b.jpg'', lit ''c-02.jpg'', lit ''d.jpg'']
     (lit ''HR'') (lit ''250701'') 0
   = ([Print MsgRenamedDir], Raised ZeroDivisionError)"
proof -
  let ?listing = "[lit ''a-01.jpg'', lit ''b.jpg'', lit ''c-02.jpg'', lit ''d.jpg'']"
  let ?batches = "[\<lparr>guide_file = lit ''a-01.jpg'', batch_id = lit ''01'',
                    files_to_rename = [lit ''b.jpg'']\<rparr>,
                   \<lparr>guide_file = lit ''c-02.jpg'', batch_id = lit ''02'',
                    files_to_rename = [lit ''d.jpg'']\<rparr>]"
  have b: "?batches = build_batches (sort (filter is_supported ?listing))
                     (find_guides 0 (sort (filter is_supported ?listing)))"
    by (simp add: string_defs slice_def)
  have ne: "?batches \<noteq> []" by simp
  have c: "is_consistent ?batches" by (simp add: is_consistent_def)
  have p: "0 < length (files_to_rename (hd ?batches))" by simp
  from zero_angle_num_raises_ZeroDivisionError [of True ?batches ?listing no_failure
      "lit ''HR''" "lit ''250701''", OF TrueI b ne c p]
  show ?thesis .
qed

section \<open>Everything a single-folder run prints or copies\<close>

lemma process_batches_events:
  assumes "e \<in> set (fst (process_batches cr af gs bs r d a))"
  shows "(\<exists>labels. e \<in> set (fst (copy_batches cr r d a labels 0 0 bs)))
    \<or> (\<exists>b \<in> set bs. e = Print (MsgFollowedBy (guide_file b) (length (files_to_rename b))))
    \<or> e \<in> set (post_pass af gs bs)
    \<or> e \<in> {Print ErrInconsistent, Print WarnNothing, Print HintAngleNum, Print MsgProcessing2}
    \<or> (\<exists>n. e = Print (ErrNotMultiple n a))
    \<or> (\<exists>m n. e = Print (MsgDetected m n a))
    \<or> (\<exists>n. e = Print (MsgDone2 n))"
proof (cases "length bs > 1 \<and> \<not> is_consistent bs")
  case True
  then show ?thesis using assms by (auto simp: process_batches_def)
next
  case False
  show ?thesis
  proof (cases bs)
    case Nil
    then show ?thesis using assms False by (simp add: process_batches_def)
  next
    case (Cons b0 rest)
    show ?thesis
    proof (cases "group_labels a")
      case (Inl err)
      then show ?thesis
        using assms False Cons
        by (auto simp: process_batches_def Let_def split: if_splits)
    next
      case (Inr labels)
      obtain es t out where cb: "copy_batches cr r d a labels 0 0 bs = (es, t, out)"
        by (cases "copy_batches cr r d a labels 0 0 bs")
      have "e \<in> set es \<Longrightarrow> \<exists>labels. e \<in> set (fst (copy_batches cr r d a labels 0 0 bs))"
        using cb by (metis fst_conv)
      then show ?thesis
        using assms False Cons Inr cb
        by (cases out) (auto simp: process_batches_def Let_def split: if_splits)
    qed
  qed
qed

lemma run_events:
  assumes "e \<in> set (fst (rename_and_copy_single_folder_mode cr isdir listing r d a))"
  shows "e \<in> {Print ErrNotDir, Print MsgRenamedDir, Print WarnNoImages, Print ErrNoGuides}
    \<or> e \<in> set (fst (process_batches cr (sort (filter is_supported listing))
          (find_guides 0 (sort (filter is_supported listing)))
          (build_batches (sort (filter is_supported listing))
             (find_guides 0 (sort (filter is_supported listing)))) r d a))"
  using assms
  by (auto simp: rename_and_copy_single_folder_mode_def Let_def
        split: if_splits prod.splits)

lemma split_batches_files:
  "b \<in> set (split_batches fs) \<Longrightarrow>
     set (guide_file b # files_to_rename b)
       \<subseteq> set (dropWhile (\<lambda>x. guide_photo_search x = None) fs)"
proof (induction fs)
  case Nil
  then show ?case by simp
next
  case (Cons f fs)
  show ?case
  proof (cases "guide_photo_search f")
    case None
    then show ?thesis using Cons by simp
  next
    case (Some bid)
    from Cons.prems Some
    consider "b = \<lparr>guide_file = f, batch_id = bid,
                   files_to_rename = takeWhile (\<lambda>x. guide_photo_search x = None) fs\<rparr>"
      | "b \<in> set (split_batches fs)"
      by auto
    then show ?thesis
    proof cases
      case 1
      then show ?thesis using Some by (auto dest: set_takeWhileD)
    next
      case 2
      then have "set (guide_file b # files_to_rename b)
          \<subseteq> set (dropWhile (\<lambda>x. guide_photo_search x = None) fs)"
        by (rule Cons.IH)
      also have "\<dots> \<subseteq> set fs" by (auto dest: set_dropWhileD)
      finally show ?thesis using Some by auto
    qed
  qed
qed

lemma split_batches_guides:
  "b \<in> set (split_batches fs) \<Longrightarrow>
     guide_photo_search (guide_file b) \<noteq> None
     \<and> (\<forall>f \<in> set (files_to_rename b). guide_photo_search f = None)"
proof (induction fs)
  case Nil
  then show ?case by simp
next
  case (Cons f fs)
  then show ?case
    by (cases "guide_photo_search f") (auto dest: set_takeWhileD)
qed

lemma before_first_guide_not_in_batch:
  assumes "distinct fs" and "i < length fs"
    and "\<forall>k \<le> i. guide_photo_search (fs ! k) = None"
    and "b \<in> set (split_batches fs)"
  shows "fs ! i \<notin> set (guide_file b # files_to_rename b)"
proof -
  let ?P = "\<lambda>x. guide_photo_search x = None"
  have "Suc i \<le> length (takeWhile ?P fs)"
    using assms(2,3) by (intro length_takeWhile_less_P_nth) auto
  then have "fs ! i \<in> set (takeWhile ?P fs)"
    by (metis Suc_le_lessD nth_mem takeWhile_nth)
  moreover have "set (takeWhile ?P fs) \<inter> set (dropWhile ?P fs) = {}"
    using assms(1) by (metis distinct_append takeWhile_dropWhile_id)
  ultimately have "fs ! i \<notin> set (dropWhile ?P fs)" by blast
  then show ?thesis using split_batches_files [OF assms(4)] by blast
qed

lemma is_lower_cased_lower: "is_lower_cased (lower s)"
  by (induction s) (simp_all add: is_lower_cased_def lower_def lower_cp_def)

section \<open>The check for files left after the last batch (C5)\<close>

text \<open>
  C5: in single-folder mode, whenever there is a guide photo, \<^verbatim>\<open>last_processed_index\<close>
  equals \<^verbatim>\<open>len(all_files) - 1\<close>: the last batch runs to the end of the list. So the
  check after the copy loop finds nothing, and no run, whatever its input, prints the
  warning about files never processed or the list of them.
\<close>

theorem files_never_processed_warning_unreachable:
  "(find_guides 0 all_files \<noteq> [] \<longrightarrow>
      last_processed_index (find_guides 0 all_files)
        (build_batches all_files (find_guides 0 all_files)) = int (length all_files) - 1)
   \<and> post_pass all_files (find_guides 0 all_files)
        (build_batches all_files (find_guides 0 all_files)) = []
   \<and> Print (WarnRemaining n) \<notin> set (fst (rename_and_copy_single_folder_mode copy_raises
        isdir listing region_code date_code angle_num))
   \<and> Print (MsgRemaining fs) \<notin> set (fst (rename_and_copy_single_folder_mode copy_raises
        isdir listing region_code date_code angle_num))"
proof -
  let ?run = "fst (rename_and_copy_single_folder_mode copy_raises isdir listing region_code
      date_code angle_num)"
  have no: "e \<in> set ?run \<Longrightarrow> e \<noteq> Print (WarnRemaining n) \<and> e \<noteq> Print (MsgRemaining fs)"
    for e
    using run_events [of e copy_raises isdir listing region_code date_code angle_num]
      process_batches_events [of e copy_raises "sort (filter is_supported listing)"
        "find_guides 0 (sort (filter is_supported listing))"
        "build_batches (sort (filter is_supported listing))
           (find_guides 0 (sort (filter is_supported listing)))"
        region_code date_code angle_num]
      copy_batches_no_remaining [of n copy_raises region_code date_code angle_num _ 0 0
        "build_batches (sort (filter is_supported listing))
           (find_guides 0 (sort (filter is_supported listing)))" fs]
    by (auto simp: post_pass_Nil)
  show ?thesis
    using no by (auto simp: last_processed_index_eq post_pass_Nil)
qed

theorem files_never_processed_warning_unreachable_witness:
  "find_guides 0 [lit ''a-01.jpg'', lit ''b.jpg'', lit ''c.jpg''] \<noteq> []
   \<and> last_processed_index (find_guides 0 [lit ''a-01.jpg'', lit ''b.jpg'', lit ''c.jpg''])
        (build_batches [lit ''a-01.jpg'', lit ''b.jpg'', lit ''c.jpg'']
           (find_guides 0 [lit ''a-01.jpg'', lit ''b.jpg'', lit ''c.jpg''])) = 2"
proof -
  have g: "find_guides 0 [lit ''a-01.jpg'', lit ''b.jpg'', lit ''c.jpg''] \<noteq> []"
    by (simp add: string_defs)
  from files_never_processed_warning_unreachable
    [of "[lit ''a-01.jpg'', lit ''b.jpg'', lit ''c.jpg'']"] g
  show ?thesis by simp
qed

section \<open>Files before the first guide photo (C10)\<close>

text \<open>
  C10: in single-folder mode a supported image file whose position in the sorted list
  comes before the first guide photo belongs to no batch (it is neither a guide file nor
  among the files to rename, so no count includes it), and nothing the run prints or
  copies refers to it: it is not copied, not renamed, and no warning or diagnostic
  names it. The names in the folder are distinct, as a directory listing is.
\<close>

theorem files_before_first_guide_are_ignored:
  assumes "distinct listing"
    and "all_files = sort (filter is_supported listing)"
    and "i < length all_files"
    and "\<forall>k \<le> i. guide_photo_search (all_files ! k) = None"
  shows "(\<forall>b \<in> set (build_batches all_files (find_guides 0 all_files)).
            all_files ! i \<notin> set (guide_file b # files_to_rename b))
     \<and> (\<forall>e \<in> set (fst (rename_and_copy_single_folder_mode copy_raises isdir listing
            region_code date_code angle_num)).
            all_files ! i \<notin> set (event_files e))"
proof -
  let ?bs = "build_batches all_files (find_guides 0 all_files)"
  have d: "distinct all_files" using assms(1,2) by simp
  have nb: "all_files ! i \<notin> set (guide_file b # files_to_rename b)" if "b \<in> set ?bs" for b
  proof -
    from that have "b \<in> set (split_batches all_files)"
      by (simp add: batches_eq_split)
    then show ?thesis
      by (rule before_first_guide_not_in_batch [OF d assms(3,4)])
  qed
  have ne: "all_files ! i \<notin> set (event_files e)"
    if e: "e \<in> set (fst (rename_and_copy_single_folder_mode copy_raises isdir listing
            region_code date_code angle_num))" for e
  proof -
    from run_events [OF e]
    consider "e \<in> {Print ErrNotDir, Print MsgRenamedDir, Print WarnNoImages,
                   Print ErrNoGuides}"
      | "e \<in> set (fst (process_batches copy_raises all_files (find_guides 0 all_files) ?bs
                  region_code date_code angle_num))"
      by (auto simp: assms(2))
    then show ?thesis
    proof cases
      case 1
      then show ?thesis by auto
    next
      case 2
      from process_batches_events [OF 2]
      consider labels where "e \<in> set (fst (copy_batches copy_raises region_code date_code
            angle_num labels 0 0 ?bs))"
        | b where "b \<in> set ?bs"
            "e = Print (MsgFollowedBy (guide_file b) (length (files_to_rename b)))"
        | "event_files e = []"
        by (auto simp: post_pass_Nil)
      then show ?thesis
      proof cases
        case 1
        then have "set (event_files e) \<subseteq> (\<Union>b \<in> set ?bs. set (guide_file b # files_to_rename b))"
          using copy_batches_event_files [of copy_raises region_code date_code angle_num
              labels 0 0 ?bs]
          by auto
        then show ?thesis using nb by blast
      next
        case 2
        then show ?thesis using nb [of b] by simp
      next
        case 3
        then show ?thesis by simp
      qed
    qed
  qed
  show ?thesis using nb ne by blast
qed

theorem files_before_first_guide_are_ignored_witness:
  "lit ''0.jpg''
     \<notin> set (concat (map (\<lambda>b. guide_file b # files_to_rename b)
                (build_batches [lit ''0.jpg'', lit ''a-01.jpg'', lit ''b.jpg'']
                   (find_guides 0 [lit ''0.jpg'', lit ''a-01.jpg'', lit ''b.jpg'']))))
   \<and> lit ''0.jpg''
     \<notin> set (concat (map event_files
                (fst (rename_and_copy_single_folder_mode no_failure True
                   [lit ''b.jpg'', lit ''a-01.jpg'', lit ''0.jpg''] (lit ''HR'')
                   (lit ''250701'') 1))))
   \<and> copies (fst (rename_and_copy_single_folder_mode no_failure True
                   [lit ''b.jpg'', lit ''a-01.jpg'', lit ''0.jpg''] (lit ''HR'')
                   (lit ''250701'') 1))
     = [((Single_folder, lit ''a-01.jpg''), (renamed_dir_path, lit ''a-01.jpg'')),
        ((Single_folder, lit ''b.jpg''), (renamed_dir_path, lit ''HR-250701-0101-A.jpg''))]"
proof -
  let ?listing = "[lit ''b.jpg'', lit ''a-01.jpg'', lit ''0.jpg'']"
  let ?all = "[lit ''0.jpg'', lit ''a-01.jpg'', lit ''b.jpg'']"
  have d: "distinct ?listing" by (simp add: lit_def)
  have s: "?all = sort (filter is_supported ?listing)" by (simp add: string_defs)
  have i: "0 < length ?all" by simp
  have g: "\<forall>k \<le> 0. guide_photo_search (?all ! k) = None" by (simp add: string_defs)
  from files_before_first_guide_are_ignored [OF d s i g, of no_failure True "lit ''HR''"
      "lit ''250701''" 1]
  have "(\<forall>b \<in> set (build_batches ?all (find_guides 0 ?all)).
            lit ''0.jpg'' \<notin> set (guide_file b # files_to_rename b))
     \<and> (\<forall>e \<in> set (fst (rename_and_copy_single_folder_mode no_failure True ?listing
            (lit ''HR'') (lit ''250701'') 1)). lit ''0.jpg'' \<notin> set (event_files e))"
    by simp
  then have absent: "lit ''0.jpg''
     \<notin> set (concat (map (\<lambda>b. guide_file b # files_to_rename b)
                (build_batches ?all (find_guides 0 ?all))))
   \<and> lit ''0.jpg''
     \<notin> set (concat (map event_files
                (fst (rename_and_copy_single_folder_mode no_failure True ?listing
                   (lit ''HR'') (lit ''250701'') 1))))"
    by (simp only: set_concat set_map) blast
  have others: "copies (fst (rename_and_copy_single_folder_mode no_failure True ?listing
                   (lit ''HR'') (lit ''250701'') 1))
     = [((Single_folder, lit ''a-01.jpg''), (renamed_dir_path, lit ''a-01.jpg'')),
        ((Single_folder, lit ''b.jpg''), (renamed_dir_path, lit ''HR-250701-0101-A.jpg''))]"
    by (simp add: run_defs string_defs)
  from absent others show ?thesis by (simp only: simp_thms)
qed

section \<open>The extension of a supported file\<close>

lemma rfind_absent: "c \<notin> set ys \<Longrightarrow> rfind c ys = - 1"
  by (induction ys) (simp_all add: Let_def)

lemma rfind_last: "c \<notin> set ys \<Longrightarrow> rfind c (xs @ c # ys) = int (length xs)"
  by (induction xs) (simp_all add: Let_def rfind_absent)

lemma lower_cp_dot: "lower_cp c = 46 \<longleftrightarrow> c = 46"
  by (simp add: lower_cp_def)

lemma supported_extension_shape:
  "e \<in> set SUPPORTED_IMAGE_EXTENSIONS \<Longrightarrow> \<exists>l. e = 46 # l \<and> 46 \<notin> set l"
  by (auto simp: SUPPORTED_IMAGE_EXTENSIONS_def lit_def)

lemma is_supported_extension:
  assumes "is_supported f"
  shows "splitext_ext f = [] \<or> lower (splitext_ext f) \<in> set SUPPORTED_IMAGE_EXTENSIONS"
proof -
  from assms obtain e where e: "e \<in> set SUPPORTED_IMAGE_EXTENSIONS"
    and ends: "endswith (lower f) e"
    by (auto simp: is_supported_def endswith_any_def list_ex_iff)
  define xs where "xs = take (length f - length e) f"
  define t where "t = drop (length f - length e) f"
  have f: "f = xs @ t" by (simp add: xs_def t_def)
  have lt: "lower t = e"
    using ends by (simp add: endswith_def lower_def t_def drop_map)
  from supported_extension_shape [OF e] obtain l where l: "e = 46 # l" "46 \<notin> set l"
    by blast
  from lt l(1) obtain c ys where t: "t = c # ys" and c: "lower_cp c = 46" and ys: "lower ys = l"
    by (cases t) (auto simp: lower_def)
  have c46: "c = 46" using c by (simp add: lower_cp_dot)
  have "46 \<notin> set ys"
  proof
    assume "46 \<in> set ys"
    then have "lower_cp 46 \<in> set (lower ys)" by (auto simp: lower_def)
    then show False using ys l(2) by (simp add: lower_cp_def)
  qed
  then have dot: "rfind 46 f = int (length xs)"
    by (simp add: f t c46 rfind_last)
  have "drop (length xs) f = t" by (simp add: f)
  then have "splitext_ext f = [] \<or> splitext_ext f = t"
    by (simp add: splitext_ext_def Let_def dot)
  then show ?thesis using lt e by auto
qed

lemma split_batches_subset:
  "b \<in> set (split_batches fs) \<Longrightarrow> set (files_to_rename b) \<subseteq> set fs"
  using split_batches_files [of b fs] by (auto dest: set_dropWhileD)

section \<open>The case of the extensions in the output (C6)\<close>

text \<open>
  C6 says that every file placed in the output directory has a lower-cased extension,
  guide photos included. A guide photo is copied under its original name, so a guide
  named \<^verbatim>\<open>a-01.JPG\<close> arrives as \<^verbatim>\<open>a-01.JPG\<close>, extension in upper case; only the renamed
  file next to it gets \<^verbatim>\<open>.jpg\<close>.
\<close>

theorem C6_guide_photo_keeps_upper_case_extension:
  "copies (fst (rename_and_copy_single_folder_mode no_failure True
      [lit ''a-01.JPG'', lit ''b.JPG''] (lit ''HR'') (lit ''250701'') 1))
   = [((Single_folder, lit ''a-01.JPG''), (renamed_dir_path, lit ''a-01.JPG'')),
      ((Single_folder, lit ''b.JPG''), (renamed_dir_path, lit ''HR-250701-0101-A.jpg''))]
   \<and> splitext_ext (lit ''a-01.JPG'') = lit ''.JPG''
   \<and> \<not> is_lower_cased (lit ''.JPG'')"
  by (simp add: run_defs string_defs is_lower_cased_def)

text \<open>
  C6, amended: in single-folder mode every copy goes from the image folder to the output
  folder and is of one of two kinds. A guide photo is copied under its original name,
  the case of its extension unchanged. Any other file is copied to a name that ends
  with the lower-cased extension of its original name, which has no upper-case letter
  whatever the case of the input extension: it is one of the supported extensions as
  they are listed, in lower case, or empty when the original name has no extension
  (a name that is nothing but dots and a supported extension).
\<close>

theorem renamed_files_get_lower_cased_extension:
  assumes "((s, f), (dd, new)) \<in> set (copies (fst (rename_and_copy_single_folder_mode
      copy_raises isdir listing region_code date_code angle_num)))"
  shows "s = Single_folder \<and> dd = renamed_dir_path
     \<and> ((guide_photo_search f \<noteq> None \<and> new = f)
         \<or> (guide_photo_search f = None \<and> endswith new (lower (splitext_ext f))
             \<and> is_lower_cased (lower (splitext_ext f))
             \<and> (splitext_ext f = []
                  \<or> lower (splitext_ext f) \<in> set SUPPORTED_IMAGE_EXTENSIONS)))"
proof -
  let ?af = "sort (filter is_supported listing)"
  let ?bs = "build_batches ?af (find_guides 0 ?af)"
  have c: "Copy2 (s, f) (dd, new) \<in> set (fst (rename_and_copy_single_folder_mode
      copy_raises isdir listing region_code date_code angle_num))"
    using assms by (simp add: copies_iff)
  from run_events [OF c]
  have "Copy2 (s, f) (dd, new) \<in> set (fst (process_batches copy_raises ?af
      (find_guides 0 ?af) ?bs region_code date_code angle_num))"
    by auto
  from process_batches_events [OF this]
  obtain labels where "Copy2 (s, f) (dd, new) \<in> set (fst (copy_batches copy_raises
      region_code date_code angle_num labels 0 0 ?bs))"
    by (auto simp: post_pass_Nil)
  then have "((s, f), (dd, new)) \<in> set (copies (fst (copy_batches copy_raises
      region_code date_code angle_num labels 0 0 ?bs)))"
    by (simp add: copies_iff)
  from copy_batches_copies_shape [OF this]
  obtain b where sd: "s = Single_folder" "dd = renamed_dir_path"
    and b: "b \<in> set ?bs"
    and alt: "(f = guide_file b \<and> new = f)
       \<or> (f \<in> set (files_to_rename b) \<and> endswith new (lower (splitext_ext f)))"
    by blast
  from b have "b \<in> set (split_batches ?af)" by (simp add: batches_eq_split)
  from split_batches_guides [OF this]
  have g: "guide_photo_search (guide_file b) \<noteq> None"
    and n: "\<forall>f \<in> set (files_to_rename b). guide_photo_search f = None"
    by simp_all
  have ext: "splitext_ext f = [] \<or> lower (splitext_ext f) \<in> set SUPPORTED_IMAGE_EXTENSIONS"
    if "f \<in> set (files_to_rename b)"
  proof -
    from that \<open>b \<in> set (split_batches ?af)\<close> have "f \<in> set ?af"
      using split_batches_subset by blast
    then have "is_supported f" by simp
    then show ?thesis by (rule is_supported_extension)
  qed
  show ?thesis
    using sd alt g n ext is_lower_cased_lower [of "splitext_ext f"] by blast
qed

theorem renamed_files_get_lower_cased_extension_witness:
  "guide_photo_search (lit ''b.JPG'') = None
   \<and> endswith (lit ''HR-250701-0101-A.jpg'') (lower (splitext_ext (lit ''b.JPG'')))
   \<and> is_lower_cased (lower (splitext_ext (lit ''b.JPG'')))
   \<and> lower (splitext_ext (lit ''b.JPG'')) = lit ''.jpg''"
proof -
  have m: "((Single_folder, lit ''b.JPG''), (renamed_dir_path, lit ''HR-250701-0101-A.jpg''))
      \<in> set (copies (fst (rename_and_copy_single_folder_mode no_failure True
      [lit ''a-01.JPG'', lit ''b.JPG''] (lit ''HR'') (lit ''250701'') 1)))"
    by (simp add: run_defs string_defs)
  have n: "guide_photo_search (lit ''b.JPG'') = None" by (simp add: string_defs)
  have x: "lower (splitext_ext (lit ''b.JPG'')) = lit ''.jpg''" by (simp add: string_defs)
  from renamed_files_get_lower_cased_extension [OF m] n x
  show ?thesis by simp
qed

section \<open>Subfolder mode: what one sample folder gives\<close>

lemma angle_suffixes_nth: "i < 4 \<Longrightarrow> angle_suffixes ! i = [65 + i]"
proof -
  assume "i < 4"
  then consider "i = 0" | "i = 1" | "i = 2" | "i = 3" by linarith
  then show ?thesis
    by cases (simp_all add: angle_suffixes_def lit_def)
qed

lemma length_angle_suffixes: "length angle_suffixes = 4"
  by (simp add: angle_suffixes_def)

lemma copy_sample_files_copies:
  "i \<le> 4 \<Longrightarrow>
   copies (copy_sample_files cr r d root sample i fs)
     = map (\<lambda>(k, f). ((Root root, f), (renamed_dir_path, sample_name r d sample k f)))
         (enumerate i (take (4 - i) fs))"
proof (induction fs arbitrary: i)
  case Nil
  then show ?case by simp
next
  case (Cons f fs)
  show ?case
  proof (cases "i = 4")
    case True
    then show ?thesis by (simp add: length_angle_suffixes)
  next
    case False
    with Cons.prems have lt: "i < 4" by simp
    then have t: "take (4 - i) (f # fs) = f # take (4 - Suc i) fs"
      by (simp add: take_Cons')
    show ?thesis
      using lt Cons.IH [of "Suc i"]
      by (simp add: t length_angle_suffixes angle_suffixes_nth Let_def sample_name_def)
  qed
qed

lemma isdigit_not_renamed: "\<not> isdigit RENAMED_FOLDER_NAME"
  by (simp add: isdigit_def RENAMED_FOLDER_NAME_def lit_def)

lemma visit_sample_copies:
  assumes "isdigit sample_number" and "length sample_number = 4"
  shows "copies (visit cr r d (parent @ [sample_number], dirs, files))
     = map (\<lambda>(k, f). ((Root (parent @ [sample_number]), f),
                      (renamed_dir_path, sample_name r d sample_number k f)))
         (enumerate 0 (take 4 (sort (filter is_supported files))))"
proof -
  have "parent @ [sample_number] \<noteq> [RENAMED_FOLDER_NAME]"
    using assms(1) isdigit_not_renamed by auto
  then show ?thesis
    using assms copy_sample_files_copies [of 0 cr r d "parent @ [sample_number]"
        sample_number "sort (filter is_supported files)"]
    by (auto simp: visit_def renamed_dir_path_def Let_def)
qed

lemmas subfolder_defs = rename_and_copy_subfolder_mode_def visit_def isdigit_def
  angle_suffixes_def renamed_dir_path_def Let_def no_failure_def sample_name_def

lemma copies_concat: "copies (concat ess) = concat (map copies ess)"
  by (induction ess) (simp_all add: copies_append)

lemma subfolder_copies:
  "copies (rename_and_copy_subfolder_mode cr tree r d)
     = concat (map (\<lambda>entry. copies (visit cr r d entry)) (walk [] tree))"
  by (simp add: rename_and_copy_subfolder_mode_def copies_append copies_concat comp_def)

lemma copy_sample_files_location:
  "c \<in> set (copies (copy_sample_files cr r d root sample i fs)) \<Longrightarrow> fst (fst c) = Root root"
  by (induction fs arbitrary: i) (auto simp: Let_def split: if_splits)

lemma visit_location:
  "c \<in> set (copies (visit cr r d (root, dirs, files))) \<Longrightarrow> fst (fst c) = Root root"
  by (auto simp: visit_def Let_def dest: copy_sample_files_location split: if_splits)

lemma filter_concat_unique:
  assumes "distinct (map fst es)" and "e \<in> set es"
    and "\<And>e' c. e' \<in> set es \<Longrightarrow> c \<in> set (g e') \<Longrightarrow> key c = Root (fst e')"
  shows "filter (\<lambda>c. key c = Root (fst e)) (concat (map g es)) = g e"
  using assms
proof (induction es)
  case Nil
  then show ?case by simp
next
  case (Cons x es)
  have own: "filter (\<lambda>c. key c = Root (fst x)) (g x) = g x"
    using Cons.prems(3) [of x] by (simp add: filter_id_conv)
  show ?case
  proof (cases "e = x")
    case True
    have "fst e' \<noteq> fst x" if "e' \<in> set es" for e'
      using Cons.prems(1) that by (metis distinct.simps(2) image_eqI list.simps(9) set_map)
    then have "filter (\<lambda>c. key c = Root (fst x)) (concat (map g es)) = []"
      using Cons.prems(3) by (fastforce simp: filter_empty_conv)
    then show ?thesis using True own by simp
  next
    case False
    then have e: "e \<in> set es" using Cons.prems(2) by simp
    then have "fst x \<noteq> fst e"
      using Cons.prems(1) by (metis distinct.simps(2) image_eqI list.simps(9) set_map)
    then have "filter (\<lambda>c. key c = Root (fst e)) (g x) = []"
      using Cons.prems(3) [of x] by (fastforce simp: filter_empty_conv)
    moreover have "filter (\<lambda>c. key c = Root (fst e)) (concat (map g es)) = g e"
      using Cons.IH Cons.prems e by simp
    ultimately show ?thesis by simp
  qed
qed

lemma copies_from_sample_folder:
  assumes "(parent @ [sample_number], dirs, files) \<in> set (walk [] tree)"
    and "distinct (map fst (walk [] tree))"
    and "isdigit sample_number" and "length sample_number = 4"
  shows "copies_from (Root (parent @ [sample_number]))
           (rename_and_copy_subfolder_mode cr tree r d)
     = map (\<lambda>(k, f). ((Root (parent @ [sample_number]), f),
                      (renamed_dir_path, sample_name r d sample_number k f)))
         (enumerate 0 (take 4 (sort (filter is_supported files))))"
proof -
  let ?e = "(parent @ [sample_number], dirs, files)"
  have "filter (\<lambda>c. fst (fst c) = Root (fst ?e))
          (concat (map (\<lambda>entry. copies (visit cr r d entry)) (walk [] tree)))
        = copies (visit cr r d ?e)"
  proof (rule filter_concat_unique [OF assms(2,1)])
    fix e' c
    assume "e' \<in> set (walk [] tree)" and "c \<in> set (copies (visit cr r d e'))"
    then show "fst (fst c) = Root (fst e')"
      using visit_location [of c cr r d "fst e'" "fst (snd e')" "snd (snd e')"] by simp
  qed
  then show ?thesis
    by (simp add: copies_from_def subfolder_copies visit_sample_copies [OF assms(3,4)])
qed

section \<open>A sample folder with N images (C8)\<close>

text \<open>
  C8: in a run of subfolder mode, for a folder that the walk reaches (through any
  \<open>parent\<close> directories) with a 4-digit name and N supported images: if N is at most 4,
  the copies the run makes from that folder are exactly the N images, in the sorted
  order of their names, the \<open>i\<close>-th under \<^verbatim>\<open>{REGION}-{DATE}-{SAMPLEID}-{ANGLE}{ext}\<close> with
  the \<open>i\<close>-th letter from A; if N is more than 4, they are exactly the first 4 in sorted
  order, with A to D, and the other images are not copied. In both cases the run copies
  min(N, 4) files from the folder. No two directories of the tree have the same path.
\<close>

theorem sample_folder_copies_first_four_sorted:
  assumes "(parent @ [sample_number], dirs, files) \<in> set (walk [] tree)"
    and "distinct (map fst (walk [] tree))"
    and "isdigit sample_number" and "length sample_number = 4"
    and "image_files = sort (filter is_supported files)"
  shows "(length image_files \<le> 4 \<longrightarrow>
            copies_from (Root (parent @ [sample_number]))
              (rename_and_copy_subfolder_mode copy_raises tree region_code date_code)
            = map (\<lambda>(i, f). ((Root (parent @ [sample_number]), f),
                     (renamed_dir_path, sample_name region_code date_code sample_number i f)))
                (enumerate 0 image_files))
     \<and> (length image_files > 4 \<longrightarrow>
            copies_from (Root (parent @ [sample_number]))
              (rename_and_copy_subfolder_mode copy_raises tree region_code date_code)
            = map (\<lambda>(i, f). ((Root (parent @ [sample_number]), f),
                     (renamed_dir_path, sample_name region_code date_code sample_number i f)))
                (enumerate 0 (take 4 image_files)))
     \<and> length (copies_from (Root (parent @ [sample_number]))
                (rename_and_copy_subfolder_mode copy_raises tree region_code date_code))
         = min (length image_files) 4"
  using assms by (simp add: copies_from_sample_folder min_def)

theorem sample_folder_copies_first_four_sorted_witness:
  "copies_from (Root [lit ''0001''])
     (rename_and_copy_subfolder_mode no_failure
        (Dir [(lit ''0001'', Dir [] [lit ''y.JPG'', lit ''notes.txt'', lit ''x.png'']),
              (lit ''0002'',
               Dir [] [lit ''e.jpg'', lit ''d.jpg'', lit ''c.jpg'', lit ''b.jpg'', lit ''a.jpg'']),
              (lit ''renamed'', Dir [] [])] [])
        (lit ''HR'') (lit ''250701''))
   = [((Root [lit ''0001''], lit ''x.png''), (renamed_dir_path, lit ''HR-250701-0001-A.png'')),
      ((Root [lit ''0001''], lit ''y.JPG''), (renamed_dir_path, lit ''HR-250701-0001-B.jpg''))]
   \<and> copies_from (Root [lit ''0002''])
     (rename_and_copy_subfolder_mode no_failure
        (Dir [(lit ''0001'', Dir [] [lit ''y.JPG'', lit ''notes.txt'', lit ''x.png'']),
              (lit ''0002'',
               Dir [] [lit ''e.jpg'', lit ''d.jpg'', lit ''c.jpg'', lit ''b.jpg'', lit ''a.jpg'']),
              (lit ''renamed'', Dir [] [])] [])
        (lit ''HR'') (lit ''250701''))
   = [((Root [lit ''0002''], lit ''a.jpg''), (renamed_dir_path, lit ''HR-250701-0002-A.jpg'')),
      ((Root [lit ''0002''], lit ''b.jpg''), (renamed_dir_path, lit ''HR-250701-0002-B.jpg'')),
      ((Root [lit ''0002''], lit ''c.jpg''), (renamed_dir_path, lit ''HR-250701-0002-C.jpg'')),
      ((Root [lit ''0002''], lit ''d.jpg''), (renamed_dir_path, lit ''HR-250701-0002-D.jpg''))]"
proof -
  let ?f1 = "[lit ''y.JPG'', lit ''notes.txt'', lit ''x.png'']"
  let ?f2 = "[lit ''e.jpg'', lit ''d.jpg'', lit ''c.jpg'', lit ''b.jpg'', lit ''a.jpg'']"
  let ?tree = "Dir [(lit ''0001'', Dir [] ?f1), (lit ''0002'', Dir [] ?f2),
                    (lit ''renamed'', Dir [] [])] []"
  have w1: "([] @ [lit ''0001''], [], ?f1) \<in> set (walk [] ?tree)" by simp
  have w2: "([] @ [lit ''0002''], [], ?f2) \<in> set (walk [] ?tree)" by simp
  have u: "distinct (map fst (walk [] ?tree))" by (simp add: lit_def)
  have d1: "isdigit (lit ''0001'')" and l1: "length (lit ''0001'') = 4"
    by (simp_all add: isdigit_def lit_def)
  have d2: "isdigit (lit ''0002'')" and l2: "length (lit ''0002'') = 4"
    by (simp_all add: isdigit_def lit_def)
  have s1: "[lit ''x.png'', lit ''y.JPG''] = sort (filter is_supported ?f1)"
    by (simp add: string_defs)
  have s2: "[lit ''a.jpg'', lit ''b.jpg'', lit ''c.jpg'', lit ''d.jpg'', lit ''e.jpg'']
      = sort (filter is_supported ?f2)"
    by (simp add: string_defs)
  from sample_folder_copies_first_four_sorted [OF w1 u d1 l1 s1, of no_failure "lit ''HR''"
      "lit ''250701''"]
    sample_folder_copies_first_four_sorted [OF w2 u d2 l2 s2, of no_failure "lit ''HR''"
      "lit ''250701''"]
  show ?thesis
    by (simp add: sample_name_def string_defs enumerate_eq_zip upt_rec)
qed

section \<open>Nested folders in subfolder mode (C2)\<close>

text \<open>
  C2 says that files are copied only from immediate child directories of the base and
  never from a directory nested deeper, even one with a 4-digit name. \<^verbatim>\<open>os.walk\<close> visits
  the whole tree and the loop tests only the name of each directory: the image in
  \<^verbatim>\<open>a/0001\<close>, two levels below the base, is copied.
\<close>

theorem C2_nested_sample_folder_is_copied:
  "copies (rename_and_copy_subfolder_mode no_failure
      (Dir [(lit ''a'', Dir [(lit ''0001'', Dir [] [lit ''x.jpg''])] []),
            (lit ''renamed'', Dir [] [])] [])
      (lit ''HR'') (lit ''250701''))
   = [((Root [lit ''a'', lit ''0001''], lit ''x.jpg''),
       (renamed_dir_path, lit ''HR-250701-0001-A.jpg''))]"
  by (simp add: subfolder_defs string_defs)

text \<open>
  C2, amended: in subfolder mode files are copied from the directories below the base at
  any depth, not only from its immediate children: for every directory that the walk
  reaches, through any chain \<open>parent\<close> of directories, and whose own name is a 4-digit
  string, each of its first four supported images in sorted order is copied to the
  output folder under its sample name.
\<close>

theorem sample_folders_at_any_depth_are_copied:
  assumes "(parent @ [sample_number], dirs, files) \<in> set (walk [] tree)"
    and "isdigit sample_number" and "length sample_number = 4"
    and "image_files = sort (filter is_supported files)"
    and "i < length image_files" and "i < 4"
  shows "((Root (parent @ [sample_number]), image_files ! i),
          (renamed_dir_path,
           sample_name region_code date_code sample_number i (image_files ! i)))
         \<in> set (copies (rename_and_copy_subfolder_mode copy_raises tree region_code
                  date_code))"
proof -
  let ?g = "\<lambda>(k, f). ((Root (parent @ [sample_number]), f),
                      (renamed_dir_path, sample_name region_code date_code sample_number k f))"
  have "(i, image_files ! i) \<in> set (enumerate 0 (take 4 image_files))"
    using assms(5,6) by (simp add: in_set_enumerate_eq)
  then have "?g (i, image_files ! i) \<in> set (map ?g (enumerate 0 (take 4 image_files)))"
    by (simp only: set_map) (rule imageI)
  then have "((Root (parent @ [sample_number]), image_files ! i),
          (renamed_dir_path,
           sample_name region_code date_code sample_number i (image_files ! i)))
      \<in> set (copies (visit copy_raises region_code date_code
                 (parent @ [sample_number], dirs, files)))"
    using visit_sample_copies [OF assms(2,3), of copy_raises region_code date_code parent
        dirs files] assms(4)
    by simp
  then show ?thesis
    using assms(1) by (auto simp: subfolder_copies)
qed

theorem sample_folders_at_any_depth_are_copied_witness:
  "((Root [lit ''a'', lit ''b'', lit ''0001''], lit ''x.jpg''),
    (renamed_dir_path, lit ''HR-250701-0001-A.jpg''))
   \<in> set (copies (rename_and_copy_subfolder_mode no_failure
        (Dir [(lit ''a'', Dir [(lit ''b'', Dir [(lit ''0001'', Dir [] [lit ''x.jpg''])] [])] [])]
           [])
        (lit ''HR'') (lit ''250701'')))"
proof -
  let ?tree = "Dir [(lit ''a'',
      Dir [(lit ''b'', Dir [(lit ''0001'', Dir [] [lit ''x.jpg''])] [])] [])] []"
  have w: "([lit ''a'', lit ''b''] @ [lit ''0001''], [], [lit ''x.jpg''])
      \<in> set (walk [] ?tree)"
    by simp
  have d: "isdigit (lit ''0001'')" and l: "length (lit ''0001'') = 4"
    by (simp_all add: isdigit_def lit_def)
  have s: "[lit ''x.jpg''] = sort (filter is_supported [lit ''x.jpg''])"
    by (simp add: string_defs)
  have i: "0 < length [lit ''x.jpg'']" "(0::nat) < 4" by simp_all
  from sample_folders_at_any_depth_are_copied [OF w d l s i, of "lit ''HR''" "lit ''250701''"
      no_failure]
  show ?thesis by (simp add: sample_name_def string_defs)
qed

end
